theory Spec2Isabelle
  imports Main "HOL-Library.Sublist"
begin

section \<open>JSON fields, strings and investigation records\<close>

text \<open>
  The records of \<^verbatim>\<open>insightidr_updater.py\<close> are dictionaries decoded from JSON. A field
  read with \<^verbatim>\<open>d.get(k)\<close> is absent, present with the value \<^verbatim>\<open>null\<close>, or present with
  a value; the three cases behave differently under \<^verbatim>\<open>d.get(k, default)\<close> and
  \<^verbatim>\<open>d.get(k) or default\<close>, so all three are kept.
\<close>

datatype 'a jfield = Missing | Null | Val 'a

text \<open>\<^verbatim>\<open>d.get(k) or ""\<close> on a string field: absent, null and the empty string all give \<^verbatim>\<open>""\<close>.\<close>

fun or_empty :: "string jfield \<Rightarrow> string" where
  "or_empty (Val s) = s"
| "or_empty _ = []"

text \<open>
  An investigation as the list endpoint returns it. The assignee is itself an object;
  \<open>Val e\<close> is an object whose \<^verbatim>\<open>"email"\<close> entry is \<open>e\<close> (so \<open>Val Missing\<close> is an object
  without that key).
\<close>

record investigation =
  inv_id :: "string jfield"
  rrn :: "string jfield"
  title :: "string jfield"
  created_time :: "string jfield"
  assignee :: "string jfield jfield"

text \<open>
  \<^verbatim>\<open>str.strip()\<close>: remove leading and trailing whitespace. A character is a code point
  up to 255 (Latin-1 text); these are the code points of that range for which
  \<^verbatim>\<open>str.isspace()\<close> holds: tab, LF, VT, FF, CR, the separators 0x1c to 0x1f, space,
  NEL (0x85) and the no-break space (0xa0).
\<close>

definition isspace :: "char \<Rightarrow> bool" where
  "isspace c = ((of_char c :: nat) \<in> {9, 10, 11, 12, 13, 28, 29, 30, 31, 32, 133, 160})"

definition strip :: "string \<Rightarrow> string" where
  "strip s = rev (dropWhile isspace (rev (dropWhile isspace s)))"

text \<open>\<^verbatim>\<open>s.startswith(p)\<close>.\<close>

definition startswith :: "string \<Rightarrow> string \<Rightarrow> bool" where
  "startswith s p = (take (length p) s = p)"

text \<open>The exceptions the modelled code raises or lets through, each with its message.\<close>

datatype py_error =
    HTTPError string
  | RequestException string
  | JSONDecodeError string
  | RuntimeError string
  | ValueError string
  | TypeError string
  | AttributeError string

text \<open>\<^verbatim>\<open>str(e)\<close>, as used in \<^verbatim>\<open>f"{title}: {e}"\<close>.\<close>

fun str_of_error :: "py_error \<Rightarrow> string" where
  "str_of_error (HTTPError m) = m"
| "str_of_error (RequestException m) = m"
| "str_of_error (JSONDecodeError m) = m"
| "str_of_error (RuntimeError m) = m"
| "str_of_error (ValueError m) = m"
| "str_of_error (TypeError m) = m"
| "str_of_error (AttributeError m) = m"

section \<open>The view projector: assignee filter\<close>

text \<open>
  \<^verbatim>\<open>
  def _assignee_from_rec(self, rec):
      return ((rec.get("assignee") or {}).get("email") or "").strip()
  \<close>
\<close>

definition assignee_from_rec :: "investigation \<Rightarrow> string" where
  "assignee_from_rec rec =
     strip (or_empty (case assignee rec of Val e \<Rightarrow> e | _ \<Rightarrow> Missing))"

text \<open>
  \<^verbatim>\<open>
  def _apply_assignee_filter(self, rows):
      choice = self.assignee_filter_var.get()
      if choice == "All":
          return rows
      if choice == "Unassigned":
          return [r for r in rows if not self._assignee_from_rec(r)]
      return [r for r in rows if self._assignee_from_rec(r) == choice]
  \<close>
  The filter variable is passed in as \<open>choice\<close>.
\<close>

definition apply_assignee_filter :: "string \<Rightarrow> investigation list \<Rightarrow> investigation list" where
  "apply_assignee_filter choice rows =
     (if choice = ''All'' then rows
      else if choice = ''Unassigned'' then filter (\<lambda>r. assignee_from_rec r = []) rows
      else filter (\<lambda>r. assignee_from_rec r = choice) rows)"

section \<open>The API client\<close>

text \<open>
  Every request the program sends is one \<open>call\<close>. The arguments are the values before
  URL quoting (\<^verbatim>\<open>quote(x, safe='')\<close> is injective, so nothing is lost).
\<close>

datatype call =
    GetList nat nat
  | PutStatus string string
  | PutDisposition string string
  | PatchAssignee string string
  | PutAssignee string string
  | GetInvestigation string
  | PostComment string string

text \<open>
  What \<^verbatim>\<open>requests\<close> gives back: the call raises (connection failure, timeout), or there
  is a response with its status code, its text, the message \<^verbatim>\<open>raise_for_status()\<close> would
  put in its \<^verbatim>\<open>HTTPError\<close> (built by the library from status, reason and URL), and the
  outcome of \<^verbatim>\<open>r.json()\<close>.
\<close>

datatype 'b decoded = Invalid string | Falsy | Doc 'b

datatype 'b reply =
    Raised string
  | Reply (status_code: nat) (reply_text: string) (error_msg: string) (reply_json: "'b decoded")

text \<open>
  The body of \<^verbatim>\<open>GET /idr/v2/investigations/{id}\<close> as \<^verbatim>\<open>get_rrn\<close> looks at it: a decoded
  value is an object (given by its \<^verbatim>\<open>"rrn"\<close> entry) or not an object; the document
  either is such a value itself (\<open>Bare\<close>) or an object holding it under \<^verbatim>\<open>"data"\<close>
  (\<open>Wrapped\<close>).
\<close>

datatype jvalue = JObject "string jfield" | JOther

datatype get_body = Bare jvalue | Wrapped jvalue

text \<open>The list endpoint's document: \<^verbatim>\<open>{"data": [...], "metadata": {"index": i, "total_pages": n}}\<close>.\<close>

record metadata =
  total_pages :: "int jfield"
  index :: "int jfield"

record list_payload =
  data :: "investigation list jfield"
  metadata :: "metadata jfield"

text \<open>
  The remote service. Its answer may depend on everything it has been sent so far (the
  log of earlier calls), which covers any deterministic stateful server.
\<close>

record server =
  on_list :: "call list \<Rightarrow> nat \<Rightarrow> nat \<Rightarrow> list_payload reply"
  on_get :: "call list \<Rightarrow> string \<Rightarrow> get_body reply"
  on_send :: "call list \<Rightarrow> call \<Rightarrow> unit reply"

text \<open>\<^verbatim>\<open>r.raise_for_status()\<close>: an \<^verbatim>\<open>HTTPError\<close> for a status from 400 to 599.\<close>

definition raise_for_status :: "'b reply \<Rightarrow> py_error + unit" where
  "raise_for_status r =
     (case r of
        Raised m \<Rightarrow> Inl (RequestException m)
      | Reply code _ msg _ \<Rightarrow> if 400 \<le> code \<and> code < 600 then Inl (HTTPError msg) else Inr ())"

subsection \<open>The identifier resolver\<close>

text \<open>
  \<^verbatim>\<open>
  def get_rrn(id_or_rrn):
      if not id_or_rrn:
          raise ValueError("Missing investigation id/rrn")
      if id_or_rrn.startswith("rrn:"):
          return id_or_rrn
      url = f"{BASE_V2}/{quote(id_or_rrn, safe='')}"
      r = requests.get(url, headers=V2_HEADERS, timeout=60)
      r.raise_for_status()
      j = r.json() or {}
      inv = j.get("data") if isinstance(j, dict) and "data" in j else j
      if not isinstance(inv, dict):
          raise RuntimeError("Unexpected v2 GET response shape")
      rrn = inv.get("rrn")
      if not rrn:
          raise RuntimeError("Could not find RRN in v2 response")
      return rrn
  \<close>
  The function returns its result together with the log of calls, extended by the call
  it made, if any.
\<close>

definition get_rrn :: "server \<Rightarrow> call list \<Rightarrow> string \<Rightarrow> (py_error + string) \<times> call list" where
  "get_rrn srv lg id_or_rrn =
     (if id_or_rrn = [] then (Inl (ValueError ''Missing investigation id/rrn''), lg)
      else if startswith id_or_rrn ''rrn:'' then (Inr id_or_rrn, lg)
      else
        (let r = on_get srv lg id_or_rrn; lg' = lg @ [GetInvestigation id_or_rrn] in
         case raise_for_status r of
           Inl e \<Rightarrow> (Inl e, lg')
         | Inr _ \<Rightarrow>
            (case reply_json r of
               Invalid m \<Rightarrow> (Inl (JSONDecodeError m), lg')
             | other \<Rightarrow>
                (let inv = (case other of
                              Doc (Wrapped v) \<Rightarrow> v
                            | Doc (Bare v) \<Rightarrow> v
                            | _ \<Rightarrow> JObject Missing)
                 in case inv of
                      JOther \<Rightarrow> (Inl (RuntimeError ''Unexpected v2 GET response shape''), lg')
                    | JObject f \<Rightarrow>
                        if or_empty f = []
                        then (Inl (RuntimeError ''Could not find RRN in v2 response''), lg')
                        else (Inr (or_empty f), lg')))))"

subsection \<open>Comment creation\<close>

text \<open>
  \<^verbatim>\<open>
  def create_comment_v1(target_rrn, text):
      if not text:
          return {"ok": True, "status": 204, "url": URL_V1_CREATE_COMMENT, "text": "", "body": {}}
      payload = {"target": target_rrn, "body": text}
      r = requests.post(URL_V1_CREATE_COMMENT, headers=V1_HEADERS, json=payload, timeout=60)
      return {
          "ok": r.status_code in (200, 201),
          "status": r.status_code,
          "url": URL_V1_CREATE_COMMENT,
          "text": (r.text or "").strip(),
          "body": payload,
      }
  \<close>
  The global \<^verbatim>\<open>URL_V1_CREATE_COMMENT\<close> is the parameter \<open>url\<close>; the text may be
  \<^verbatim>\<open>None\<close>. The \<^verbatim>\<open>"body"\<close> entry is the pair (target, body) sent, or \<open>None\<close> for \<^verbatim>\<open>{}\<close>.
\<close>

record comment_info =
  ok :: bool
  status :: nat
  url :: string
  info_text :: string
  body :: "(string \<times> string) option"

definition create_comment_v1 ::
  "string \<Rightarrow> server \<Rightarrow> call list \<Rightarrow> string \<Rightarrow> string option
     \<Rightarrow> (py_error + comment_info) \<times> call list" where
  "create_comment_v1 u srv lg target_rrn txt =
     (if txt = None \<or> txt = Some [] then
        (Inr \<lparr>ok = True, status = 204, url = u, info_text = [], body = None\<rparr>, lg)
      else
        (let c = PostComment target_rrn (the txt); lg' = lg @ [c] in
         case on_send srv lg c of
           Raised m \<Rightarrow> (Inl (RequestException m), lg')
         | Reply code t _ _ \<Rightarrow>
             (Inr \<lparr>ok = (code = 200 \<or> code = 201), status = code, url = u,
                   info_text = strip t, body = Some (target_rrn, the txt)\<rparr>, lg')))"

subsection \<open>The mutation calls\<close>

text \<open>
  \<^verbatim>\<open>
  def set_status(id_or_rrn, new_status):
      url = f"{BASE_V2}/{quote(id_or_rrn, safe='')}/status/{quote(new_status, safe='')}"
      r = requests.put(url, headers=V2_HEADERS, timeout=60)
      r.raise_for_status()
  \<close>
  and \<^verbatim>\<open>set_disposition\<close> likewise on \<^verbatim>\<open>/disposition/\<close>.
\<close>

definition set_status :: "server \<Rightarrow> call list \<Rightarrow> string \<Rightarrow> string \<Rightarrow> (py_error + unit) \<times> call list" where
  "set_status srv lg id_or_rrn new_status =
     (let c = PutStatus id_or_rrn new_status in (raise_for_status (on_send srv lg c), lg @ [c]))"

definition set_disposition :: "server \<Rightarrow> call list \<Rightarrow> string \<Rightarrow> string \<Rightarrow> (py_error + unit) \<times> call list" where
  "set_disposition srv lg id_or_rrn disposition =
     (let c = PutDisposition id_or_rrn disposition in (raise_for_status (on_send srv lg c), lg @ [c]))"

text \<open>
  \<^verbatim>\<open>
  def assign_user(id_or_rrn, assignee_email):
      url_patch = f"{BASE_V2}/{quote(id_or_rrn, safe='')}"
      body = {"assignee": {"email": assignee_email}}
      r = requests.patch(url_patch, headers=V2_HEADERS, json=body, timeout=60)
      if r.status_code in (200, 204):
          return
      url_put = f"{BASE_V2}/{quote(id_or_rrn, safe='')}/assignee/{quote(assignee_email, safe='')}"
      r2 = requests.put(url_put, headers=V2_HEADERS, timeout=60)
      r2.raise_for_status()
  \<close>
\<close>

definition assign_user :: "server \<Rightarrow> call list \<Rightarrow> string \<Rightarrow> string \<Rightarrow> (py_error + unit) \<times> call list" where
  "assign_user srv lg id_or_rrn assignee_email =
     (let c1 = PatchAssignee id_or_rrn assignee_email; lg1 = lg @ [c1] in
      case on_send srv lg c1 of
        Raised m \<Rightarrow> (Inl (RequestException m), lg1)
      | Reply code _ _ _ \<Rightarrow>
          if code = 200 \<or> code = 204 then (Inr (), lg1)
          else (let c2 = PutAssignee id_or_rrn assignee_email
                in (raise_for_status (on_send srv lg1 c2), lg1 @ [c2])))"

section \<open>The assignee directory\<close>

text \<open>
  The settings document, as far as the engine reads it: the configured assignees, each
  an object with a \<^verbatim>\<open>"name"\<close> and an \<^verbatim>\<open>"email"\<close> entry.
\<close>

record directory_entry =
  name :: "string jfield"
  email :: "string jfield"

record settings =
  assignees :: "directory_entry list jfield"

text \<open>\<^verbatim>\<open>a.get(k, "").strip()\<close>: a null entry has no \<^verbatim>\<open>strip\<close> and raises.\<close>

fun get_strip :: "string jfield \<Rightarrow> py_error + string" where
  "get_strip Missing = Inr []"
| "get_strip Null = Inl (AttributeError ''NoneType object has no attribute strip'')"
| "get_strip (Val s) = Inr (strip s)"

text \<open>
  \<^verbatim>\<open>
  def get_assignees_from_settings(cfg):
      assignees = cfg.get("assignees", [])
      if not assignees:
          return [("Unassigned / No Change", "")]
      result = [("Unassigned / No Change", "")]
      for a in assignees:
          name = a.get("name", "").strip()
          email = a.get("email", "").strip()
          if name and email:
              result.append((name, email))
      return result
  \<close>
  \<open>collect_assignees\<close> is the \<^verbatim>\<open>for\<close> loop, with \<open>result\<close> as accumulator.
\<close>

fun collect_assignees ::
  "directory_entry list \<Rightarrow> (string \<times> string) list \<Rightarrow> py_error + (string \<times> string) list" where
  "collect_assignees [] result = Inr result"
| "collect_assignees (a # as) result =
     (case get_strip (name a) of
        Inl e \<Rightarrow> Inl e
      | Inr n \<Rightarrow>
         (case get_strip (email a) of
            Inl e \<Rightarrow> Inl e
          | Inr m \<Rightarrow> collect_assignees as (if n \<noteq> [] \<and> m \<noteq> [] then result @ [(n, m)] else result)))"

definition get_assignees_from_settings :: "settings \<Rightarrow> py_error + (string \<times> string) list" where
  "get_assignees_from_settings cfg =
     (case assignees cfg of
        Val (a # as) \<Rightarrow> collect_assignees (a # as) [(''Unassigned / No Change'', [])]
      | _ \<Rightarrow> Inr [(''Unassigned / No Change'', [])])"

section \<open>The bulk mutation executor\<close>

text \<open>\<^verbatim>\<open>str(n)\<close> for a status code: the decimal digits of \<open>n\<close>.\<close>

fun str_nat :: "nat \<Rightarrow> string" where
  "str_nat n = (if n < 10 then [char_of (48 + n)] else str_nat (n div 10) @ [char_of (48 + n mod 10)])"

text \<open>\<^verbatim>\<open>rec.get("title", "")\<close> as it prints in an f-string: a null title prints as \<^verbatim>\<open>None\<close>.\<close>

fun title_text :: "string jfield \<Rightarrow> string" where
  "title_text Missing = []"
| "title_text Null = ''None''"
| "title_text (Val s) = s"

text \<open>
  The label-to-email loop of \<^verbatim>\<open>update_selected_async\<close>:
  \<^verbatim>\<open>
  chosen_email = None
  for (n, e) in assignees:
      label = f"{n} <{e}>" if e else n
      if label == chosen_assignee_label:
          chosen_email = e or None
          break
  \<close>
\<close>

fun chosen_email_of :: "(string \<times> string) list \<Rightarrow> string \<Rightarrow> string option" where
  "chosen_email_of [] chosen_assignee_label = None"
| "chosen_email_of ((n, e) # rest) chosen_assignee_label =
     (let label = (if e \<noteq> [] then n @ '' <'' @ e @ ''>'' else n) in
      if label = chosen_assignee_label then (if e = [] then None else Some e)
      else chosen_email_of rest chosen_assignee_label)"

text \<open>Sequencing of steps that may raise: the first exception ends the \<^verbatim>\<open>try\<close> body.\<close>

definition and_then ::
  "(py_error + 'a) \<times> call list \<Rightarrow> ('a \<Rightarrow> call list \<Rightarrow> (py_error + 'b) \<times> call list)
     \<Rightarrow> (py_error + 'b) \<times> call list" where
  "and_then m f = (case m of (Inl e, lg) \<Rightarrow> (Inl e, lg) | (Inr x, lg) \<Rightarrow> f x lg)"

text \<open>
  The body of the \<^verbatim>\<open>try\<close> in the worker, up to the history request:
  \<^verbatim>\<open>
  inv_rrn = rec.get("rrn") or ""
  inv_id = rec.get("id") or ""
  inv_key_v2 = inv_id or inv_rrn
  ...
  if chosen_status:
      set_status(inv_key_v2, chosen_status)
  if chosen_dispo:
      set_disposition(inv_key_v2, chosen_dispo)
  if chosen_email:
      assign_user(inv_key_v2, chosen_email)
  if comment:
      target_rrn = inv_rrn or get_rrn(inv_id)
      info = create_comment_v1(target_rrn, comment)
      if not info["ok"]:
          raise RuntimeError(f"Comment HTTP {info['status']} {info['text']}")
      # Add to history on first successful comment (only once per bulk update)
      if idx == 1 and results["successes"] == 0:
          self.after(0, lambda c=comment: self._add_to_comment_history(c))
  \<close>
  The result is the exception raised, or the comment to add to the history, if one was
  scheduled. An option that is \<^verbatim>\<open>None\<close> or empty is falsy.
\<close>

definition truthy :: "string option \<Rightarrow> bool" where
  "truthy s = (s \<noteq> None \<and> s \<noteq> Some [])"

text \<open>The four guarded steps, one per \<^verbatim>\<open>if\<close> statement of the body.\<close>

definition status_step :: "server \<Rightarrow> string \<Rightarrow> string \<Rightarrow> call list \<Rightarrow> (py_error + unit) \<times> call list" where
  "status_step srv chosen_status inv_key_v2 lg =
     (if chosen_status \<noteq> [] then set_status srv lg inv_key_v2 chosen_status else (Inr (), lg))"

definition dispo_step ::
  "server \<Rightarrow> string option \<Rightarrow> string \<Rightarrow> call list \<Rightarrow> (py_error + unit) \<times> call list" where
  "dispo_step srv chosen_dispo inv_key_v2 lg =
     (if truthy chosen_dispo then set_disposition srv lg inv_key_v2 (the chosen_dispo)
      else (Inr (), lg))"

definition assignee_step ::
  "server \<Rightarrow> string option \<Rightarrow> string \<Rightarrow> call list \<Rightarrow> (py_error + unit) \<times> call list" where
  "assignee_step srv chosen_email inv_key_v2 lg =
     (if truthy chosen_email then assign_user srv lg inv_key_v2 (the chosen_email)
      else (Inr (), lg))"

definition comment_step ::
  "string \<Rightarrow> server \<Rightarrow> string option \<Rightarrow> nat \<Rightarrow> nat \<Rightarrow> string \<Rightarrow> string \<Rightarrow> call list
     \<Rightarrow> (py_error + string option) \<times> call list" where
  "comment_step u srv comment idx succ inv_rrn the_id lg =
     (if truthy comment then
        and_then (if inv_rrn \<noteq> [] then (Inr inv_rrn, lg) else get_rrn srv lg the_id)
          (\<lambda>target_rrn lg4.
        and_then (create_comment_v1 u srv lg4 target_rrn comment) (\<lambda>info lg5.
          if \<not> ok info then
            (Inl (RuntimeError (''Comment HTTP '' @ str_nat (status info) @ '' '' @ info_text info)),
             lg5)
          else (Inr (if idx = 1 \<and> succ = 0 then comment else None), lg5)))
      else (Inr None, lg))"

definition try_body ::
  "string \<Rightarrow> server \<Rightarrow> string \<Rightarrow> string option \<Rightarrow> string option \<Rightarrow> string option
     \<Rightarrow> nat \<Rightarrow> nat \<Rightarrow> investigation \<Rightarrow> call list \<Rightarrow> (py_error + string option) \<times> call list" where
  "try_body u srv chosen_status chosen_dispo chosen_email comment idx succ rec lg0 =
     (let inv_rrn = or_empty (rrn rec);
          the_id = or_empty (inv_id rec);
          inv_key_v2 = (if the_id \<noteq> [] then the_id else inv_rrn)
      in
      and_then (status_step srv chosen_status inv_key_v2 lg0) (\<lambda>_ lg1.
      and_then (dispo_step srv chosen_dispo inv_key_v2 lg1) (\<lambda>_ lg2.
      and_then (assignee_step srv chosen_email inv_key_v2 lg2) (\<lambda>_ lg3.
      comment_step u srv comment idx succ inv_rrn the_id lg3))))"

text \<open>
  The worker's loop over \<^verbatim>\<open>enumerate(rows, start=1)\<close>:
  \<^verbatim>\<open>
      try:
          ... (the body above)
          results["successes"] += 1
      except Exception as e:
          results["fails"].append(f"{title}: {e}")
  \<close>
  The state is the report (\<open>successes\<close>, \<open>fails\<close>), the log of calls sent, and the
  comments handed to \<^verbatim>\<open>_add_to_comment_history\<close>. The progress and status-line
  messages go to presentation and are left out.
\<close>

record run =
  successes :: nat
  fails :: "string list"
  calls :: "call list"
  history_adds :: "string list"

fun worker ::
  "string \<Rightarrow> server \<Rightarrow> string \<Rightarrow> string option \<Rightarrow> string option \<Rightarrow> string option
     \<Rightarrow> nat \<Rightarrow> investigation list \<Rightarrow> run \<Rightarrow> run" where
  "worker u srv chosen_status chosen_dispo chosen_email comment idx [] st = st"
| "worker u srv chosen_status chosen_dispo chosen_email comment idx (rec # rest) st =
     worker u srv chosen_status chosen_dispo chosen_email comment (idx + 1) rest
       (case try_body u srv chosen_status chosen_dispo chosen_email comment idx (successes st)
               rec (calls st) of
          (Inr h, lg) \<Rightarrow>
            st\<lparr>successes := successes st + 1, calls := lg,
               history_adds := history_adds st @ (case h of Some c \<Rightarrow> [c] | None \<Rightarrow> [])\<rparr>
        | (Inl e, lg) \<Rightarrow>
            st\<lparr>fails := fails st @ [title_text (title rec) @ '': '' @ str_of_error e],
               calls := lg\<rparr>)"

text \<open>
  \<^verbatim>\<open>update_selected_async\<close>: nothing happens without a selection; otherwise the form is
  read (\<^verbatim>\<open>x or None\<close> on the disposition and on the stripped comment box), the assignee
  label is mapped to an email, and the worker runs from an empty report.
\<close>

record form =
  status_choice :: string
  dispo_choice :: string
  assignee_choice :: string
  comment_box :: string

definition or_none :: "string \<Rightarrow> string option" where
  "or_none s = (if s = [] then None else Some s)"

definition update_selected_async ::
  "string \<Rightarrow> server \<Rightarrow> settings \<Rightarrow> form \<Rightarrow> investigation list \<Rightarrow> call list \<Rightarrow> py_error + run" where
  "update_selected_async u srv cfg frm rows lg =
     (if rows = [] then Inr \<lparr>successes = 0, fails = [], calls = lg, history_adds = []\<rparr>
      else
        (case get_assignees_from_settings cfg of
           Inl e \<Rightarrow> Inl e
         | Inr dir \<Rightarrow>
             Inr (worker u srv (status_choice frm) (or_none (dispo_choice frm))
                    (chosen_email_of dir (assignee_choice frm))
                    (or_none (strip (comment_box frm))) 1 rows
                    \<lparr>successes = 0, fails = [], calls = lg, history_adds = []\<rparr>)))"

section \<open>Notions used to state the properties of a bulk run\<close>

text \<open>The two requests that change an assignee.\<close>

fun is_assignee_call :: "call \<Rightarrow> bool" where
  "is_assignee_call (PatchAssignee _ _) = True"
| "is_assignee_call (PutAssignee _ _) = True"
| "is_assignee_call _ = False"

text \<open>
  The outcome of the \<^verbatim>\<open>try\<close> body for each record of a run, in order, with the log and
  the success counter threaded through as the worker does.
\<close>

fun outcomes ::
  "string \<Rightarrow> server \<Rightarrow> string \<Rightarrow> string option \<Rightarrow> string option \<Rightarrow> string option
     \<Rightarrow> nat \<Rightarrow> investigation list \<Rightarrow> nat \<Rightarrow> call list \<Rightarrow> (py_error + string option) list" where
  "outcomes u srv chosen_status chosen_dispo chosen_email comment idx [] succ lg = []"
| "outcomes u srv chosen_status chosen_dispo chosen_email comment idx (rec # rest) succ lg =
     (case try_body u srv chosen_status chosen_dispo chosen_email comment idx succ rec lg of
        (r, lg') \<Rightarrow>
          r # outcomes u srv chosen_status chosen_dispo chosen_email comment (idx + 1) rest
                (case r of Inr _ \<Rightarrow> succ + 1 | Inl _ \<Rightarrow> succ) lg')"

text \<open>
  What a record that receives every requested field update must have been sent, stated
  from the design of the executor rather than from its code: in the fixed order status,
  disposition, assignee, comment, each requested update is sent and is not refused.
  A request is refused when no response arrives or the status is from 400 to 599.
\<close>

definition accepted :: "'b reply \<Rightarrow> bool" where
  "accepted r = (case r of Raised _ \<Rightarrow> False | Reply code _ _ _ \<Rightarrow> \<not> (400 \<le> code \<and> code < 600))"

text \<open>The status update: one request, accepted.\<close>

definition status_calls :: "server \<Rightarrow> string \<Rightarrow> string \<Rightarrow> call list \<Rightarrow> call list option" where
  "status_calls srv chosen_status key pre =
     (if chosen_status = [] then Some []
      else if accepted (on_send srv pre (PutStatus key chosen_status))
      then Some [PutStatus key chosen_status] else None)"

text \<open>The disposition update: same pattern, its own endpoint.\<close>

definition dispo_calls :: "server \<Rightarrow> string option \<Rightarrow> string \<Rightarrow> call list \<Rightarrow> call list option" where
  "dispo_calls srv chosen_dispo key pre =
     (if \<not> truthy chosen_dispo then Some []
      else if accepted (on_send srv pre (PutDisposition key (the chosen_dispo)))
      then Some [PutDisposition key (the chosen_dispo)] else None)"

text \<open>
  The assignee update: first the partial update, which succeeds with status 200 or 204;
  after any other response the dedicated request follows and must be accepted.
\<close>

definition assignee_calls :: "server \<Rightarrow> string option \<Rightarrow> string \<Rightarrow> call list \<Rightarrow> call list option" where
  "assignee_calls srv chosen_email key pre =
     (if \<not> truthy chosen_email then Some []
      else
        (case on_send srv pre (PatchAssignee key (the chosen_email)) of
           Raised _ \<Rightarrow> None
         | Reply code _ _ _ \<Rightarrow>
             if code = 200 \<or> code = 204 then Some [PatchAssignee key (the chosen_email)]
             else if accepted (on_send srv (pre @ [PatchAssignee key (the chosen_email)])
                                (PutAssignee key (the chosen_email)))
             then Some [PatchAssignee key (the chosen_email), PutAssignee key (the chosen_email)]
             else None))"

text \<open>
  The canonical name a lookup reply carries: the \<^verbatim>\<open>rrn\<close> field of the record, which the
  envelope holds bare or under \<^verbatim>\<open>data\<close>; empty when there is none.
\<close>

definition canonical_name :: "get_body reply \<Rightarrow> string" where
  "canonical_name r =
     (case r of
        Reply _ _ _ (Doc (Bare (JObject (Val t)))) \<Rightarrow> t
      | Reply _ _ _ (Doc (Wrapped (JObject (Val t)))) \<Rightarrow> t
      | _ \<Rightarrow> [])"

text \<open>A comment is created when the response has status 200 or 201.\<close>

definition created :: "unit reply \<Rightarrow> bool" where
  "created r = (case r of Raised _ \<Rightarrow> False | Reply code _ _ _ \<Rightarrow> code = 200 \<or> code = 201)"

text \<open>
  The comment: it goes to the record's own canonical name when the record has one;
  to its identifier when that is already canonical; otherwise the identifier is looked
  up first and the comment goes to the canonical name the accepted reply carries.
\<close>

definition comment_calls ::
  "server \<Rightarrow> string option \<Rightarrow> string \<Rightarrow> string \<Rightarrow> call list \<Rightarrow> call list option" where
  "comment_calls srv comment own_name ident pre =
     (if \<not> truthy comment then Some []
      else if own_name \<noteq> [] then
        (if created (on_send srv pre (PostComment own_name (the comment)))
         then Some [PostComment own_name (the comment)] else None)
      else if ident = [] then None
      else if startswith ident ''rrn:'' then
        (if created (on_send srv pre (PostComment ident (the comment)))
         then Some [PostComment ident (the comment)] else None)
      else
        (let r = on_get srv pre ident; t = canonical_name r in
         if accepted r \<and> t \<noteq> []
            \<and> created (on_send srv (pre @ [GetInvestigation ident]) (PostComment t (the comment)))
         then Some [GetInvestigation ident, PostComment t (the comment)]
         else None))"

text \<open>
  The requests of one record that receives all its updates, given what was sent before
  it (\<open>pre\<close>); \<open>None\<close> when some update is refused.
\<close>

definition applied_calls ::
  "server \<Rightarrow> string \<Rightarrow> string option \<Rightarrow> string option \<Rightarrow> string option \<Rightarrow> investigation
     \<Rightarrow> call list \<Rightarrow> call list option" where
  "applied_calls srv chosen_status chosen_dispo chosen_email comment rec pre =
     (let own_name = or_empty (rrn rec);
          ident = or_empty (inv_id rec);
          key = (if ident \<noteq> [] then ident else own_name)
      in case status_calls srv chosen_status key pre of
           None \<Rightarrow> None
         | Some s1 \<Rightarrow>
            (case dispo_calls srv chosen_dispo key (pre @ s1) of
               None \<Rightarrow> None
             | Some s2 \<Rightarrow>
                (case assignee_calls srv chosen_email key (pre @ s1 @ s2) of
                   None \<Rightarrow> None
                 | Some s3 \<Rightarrow>
                    (case comment_calls srv comment own_name ident (pre @ s1 @ s2 @ s3) of
                       None \<Rightarrow> None
                     | Some s4 \<Rightarrow> Some (s1 @ s2 @ s3 @ s4)))))"

text \<open>
  The assignee's email as the record holds it: empty when the assignee or its email is
  missing or null.
\<close>

definition raw_email :: "investigation \<Rightarrow> string" where
  "raw_email r = (case assignee r of Val (Val s) \<Rightarrow> s | _ \<Rightarrow> [])"

text \<open>A text of whitespace only (the empty text included).\<close>

definition blank :: "string \<Rightarrow> bool" where
  "blank s = list_all isspace s"

text \<open>
  \<open>s\<close> is \<open>c\<close> with whitespace added in front and behind, where \<open>c\<close> itself is empty or
  starts and ends with a character that is not whitespace.
\<close>

definition trims_to :: "string \<Rightarrow> string \<Rightarrow> bool" where
  "trims_to s c =
     (\<exists>l t. s = l @ c @ t \<and> blank l \<and> blank t
            \<and> (c = [] \<or> (\<not> isspace (hd c) \<and> \<not> isspace (last c))))"

text \<open>The report line \<^verbatim>\<open>f"{title}: {e}"\<close> of a record whose body raised.\<close>

definition fail_line :: "investigation \<times> (py_error + string option) \<Rightarrow> string" where
  "fail_line p = title_text (title (fst p)) @ '': '' @ str_of_error (projl (snd p))"

section \<open>Sample data\<close>

text \<open>Three investigations: one assigned, one without an assignee, one with padded email.\<close>

definition inv_a :: investigation where
  "inv_a = \<lparr>inv_id = Val ''a1'', rrn = Val ''rrn:a'', title = Val ''Alpha'',
            created_time = Val ''2024-03-01T10:00:00Z'', assignee = Val (Val ''ann@example.com'')\<rparr>"

definition inv_b :: investigation where
  "inv_b = \<lparr>inv_id = Val ''b2'', rrn = Val ''rrn:b'', title = Val ''Beta'',
            created_time = Val ''2024-03-02T10:00:00Z'', assignee = Null\<rparr>"

definition inv_c :: investigation where
  "inv_c = \<lparr>inv_id = Val ''c3'', rrn = Missing, title = Val ''Gamma'',
            created_time = Val ''2024-03-03T10:00:00Z'', assignee = Val (Val '' ann@example.com '')\<rparr>"

text \<open>
  A server that accepts everything: mutations answer 200, a lookup by id answers with
  the resource name \<^verbatim>\<open>rrn:\<close> followed by the id, the list endpoint has nothing.
\<close>

definition srv_ok :: server where
  "srv_ok = \<lparr>on_list = (\<lambda>lg sz i. Reply 200 [] [] Falsy),
             on_get = (\<lambda>lg i. Reply 200 [] [] (Doc (Wrapped (JObject (Val (''rrn:'' @ i)))))),
             on_send = (\<lambda>lg c. Reply 200 [] [] Falsy)\<rparr>"

text \<open>
  A server that refuses to change the assignee of the record with id \<^verbatim>\<open>b2\<close> (both the
  PATCH and the fallback PUT answer 500) and accepts everything else.
\<close>

definition srv_b_fails :: server where
  "srv_b_fails =
     srv_ok\<lparr>on_send :=
       (\<lambda>lg c. case c of
                  PatchAssignee k e \<Rightarrow>
                    if k = ''b2'' then Reply 500 ''no'' ''500 Server Error'' Falsy
                    else Reply 200 [] [] Falsy
                | PutAssignee k e \<Rightarrow>
                    if k = ''b2'' then Reply 500 ''no'' ''500 Server Error'' Falsy
                    else Reply 200 [] [] Falsy
                | _ \<Rightarrow> Reply 200 [] [] Falsy)\<rparr>"

text \<open>
  A settings document with one configured assignee, a form that leaves the assignee on
  the synthetic first entry, and a form that only sends a comment.
\<close>

definition sample_cfg :: settings where
  "sample_cfg = \<lparr>assignees = Val [\<lparr>name = Val ''Ann'', email = Val ''ann@example.com''\<rparr>]\<rparr>"

definition form_no_change :: form where
  "form_no_change = \<lparr>status_choice = ''CLOSED'', dispo_choice = ''BENIGN'',
                      assignee_choice = ''Unassigned / No Change'', comment_box = ''done''\<rparr>"

definition form_comment :: form where
  "form_comment = \<lparr>status_choice = ''OPEN'', dispo_choice = [],
                    assignee_choice = ''Unassigned / No Change'', comment_box = '' done ''\<rparr>"

text \<open>A server on which a comment on \<^verbatim>\<open>rrn:b\<close> is refused (500) and any other is created (201).\<close>

definition srv_comment_b_fails :: server where
  "srv_comment_b_fails =
     srv_ok\<lparr>on_send :=
       (\<lambda>lg c. case c of
                  PostComment t b \<Rightarrow>
                    if t = ''rrn:b'' then Reply 500 ''no'' ''500 Server Error'' Falsy
                    else Reply 201 [] [] Falsy
                | _ \<Rightarrow> Reply 200 [] [] Falsy)\<rparr>"

section \<open>The comment history log\<close>

text \<open>
  An entry is \<^verbatim>\<open>{"timestamp": ..., "text": ...}\<close>. The application keeps the list
  \<^verbatim>\<open>self.comment_history\<close> in memory and a copy under \<^verbatim>\<open>"comment_history"\<close> in the
  settings file.
\<close>

record history_entry =
  timestamp :: string
  entry_text :: string

record history_state =
  comment_history :: "history_entry list"
  stored_history :: "history_entry list"

text \<open>The slice \<^verbatim>\<open>xs[-n:]\<close> for positive \<open>n\<close>: the last \<open>n\<close> elements, or all of a shorter list.\<close>

definition last_n :: "nat \<Rightarrow> 'a list \<Rightarrow> 'a list" where
  "last_n n xs = drop (length xs - n) xs"

text \<open>
  \<^verbatim>\<open>
  def _load_comment_history(self):
      cfg = load_settings()
      self.comment_history = cfg.get("comment_history", [])
      # Keep only last 50 comments
      if len(self.comment_history) > 50:
          self.comment_history = self.comment_history[-50:]
  \<close>
\<close>

definition load_comment_history :: "history_state \<Rightarrow> history_state" where
  "load_comment_history st =
     st\<lparr>comment_history :=
          (if length (stored_history st) > 50 then last_n 50 (stored_history st)
           else stored_history st)\<rparr>"

text \<open>
  \<^verbatim>\<open>
  def _save_comment_history(self):
      cfg = load_settings()
      cfg["comment_history"] = self.comment_history[-50:]  # Keep only last 50
      save_settings(cfg)
  \<close>
  \<^verbatim>\<open>save_settings\<close> swallows a failed write; \<open>writable\<close> says whether the write goes
  through.
\<close>

definition save_comment_history :: "bool \<Rightarrow> history_state \<Rightarrow> history_state" where
  "save_comment_history writable st =
     (if writable then st\<lparr>stored_history := last_n 50 (comment_history st)\<rparr> else st)"

text \<open>
  \<^verbatim>\<open>
  def _add_to_comment_history(self, comment_text):
      if not comment_text or not comment_text.strip():
          return
      timestamp = now_str()
      entry = {"timestamp": timestamp, "text": comment_text.strip()}
      self.comment_history.append(entry)
      self._save_comment_history()
      ...
  \<close>
  The clock reading \<^verbatim>\<open>now_str()\<close> is the parameter \<open>now\<close>.
\<close>

definition add_to_comment_history :: "bool \<Rightarrow> string \<Rightarrow> string \<Rightarrow> history_state \<Rightarrow> history_state" where
  "add_to_comment_history writable now comment_text st =
     (if comment_text = [] \<or> strip comment_text = [] then st
      else save_comment_history writable
             (st\<lparr>comment_history :=
                  comment_history st @ [\<lparr>timestamp = now, entry_text = strip comment_text\<rparr>]\<rparr>))"

text \<open>A sequence of appends, each with its clock reading.\<close>

fun add_all :: "bool \<Rightarrow> (string \<times> string) list \<Rightarrow> history_state \<Rightarrow> history_state" where
  "add_all writable [] st = st"
| "add_all writable ((now, comment_text) # rest) st =
     add_all writable rest (add_to_comment_history writable now comment_text st)"

section \<open>The paginated fetcher\<close>

definition PAGE_SIZE :: nat where
  "PAGE_SIZE = 100"

text \<open>
  One pass through the body of the \<^verbatim>\<open>while True\<close> loop of \<^verbatim>\<open>list_investigations\<close>, given
  the reply to the request for page \<open>idx\<close>:
  \<^verbatim>\<open>
      r.raise_for_status()
      payload = r.json() or {}
      items = payload.get("data", []) or []
      meta = payload.get("metadata", {}) or {}
      if not items:
          break
      all_items.extend(items)
      total_pages = int(meta.get("total_pages", 0) or 0)
      current_index = int(meta.get("index", index))
      if total_pages == 0 or current_index >= (total_pages - 1):
          break
      index += 1
  \<close>
  The pass ends the loop with a result (an exception, or the list to return) or goes on
  with the extended list. A null \<^verbatim>\<open>"index"\<close> makes \<^verbatim>\<open>int(None)\<close> raise.
\<close>

datatype pass = Stop "py_error + investigation list" | Next "investigation list"

definition page_pass :: "list_payload reply \<Rightarrow> nat \<Rightarrow> investigation list \<Rightarrow> pass" where
  "page_pass r idx all_items =
     (case raise_for_status r of
        Inl e \<Rightarrow> Stop (Inl e)
      | Inr _ \<Rightarrow>
         (case reply_json r of
            Invalid m \<Rightarrow> Stop (Inl (JSONDecodeError m))
          | other \<Rightarrow>
             (let payload = (case other of Doc p \<Rightarrow> Some p | _ \<Rightarrow> None);
                  items = (case payload of
                             Some p \<Rightarrow> (case data p of Val xs \<Rightarrow> xs | _ \<Rightarrow> [])
                           | None \<Rightarrow> []);
                  meta = (case payload of
                            Some p \<Rightarrow> (case metadata p of Val m \<Rightarrow> Some m | _ \<Rightarrow> None)
                          | None \<Rightarrow> None)
              in if items = [] then Stop (Inr all_items)
                 else
                   (let all_items' = all_items @ items;
                        pages = (case meta of
                                   Some m \<Rightarrow> (case total_pages m of Val n \<Rightarrow> n | _ \<Rightarrow> 0)
                                 | None \<Rightarrow> 0);
                        current_index =
                          (case meta of
                             Some m \<Rightarrow>
                               (case index m of
                                  Val n \<Rightarrow> Inr n
                                | Missing \<Rightarrow> Inr (int idx)
                                | Null \<Rightarrow> Inl (TypeError ''int() argument must not be NoneType''))
                           | None \<Rightarrow> Inr (int idx))
                    in case current_index of
                         Inl e \<Rightarrow> Stop (Inl e)
                       | Inr ci \<Rightarrow>
                           if pages = 0 \<or> ci \<ge> pages - 1 then Stop (Inr all_items')
                           else Next all_items'))))"

text \<open>
  The loop itself. It need not end (a server may keep announcing more pages), so it is
  a partial function: \<open>None\<close> stands for a run that never returns.
\<close>

partial_function (option) fetch_loop ::
  "server \<Rightarrow> nat \<Rightarrow> investigation list \<Rightarrow> call list
     \<Rightarrow> ((py_error + investigation list) \<times> call list) option" where
  "fetch_loop srv idx all_items lg =
     (case page_pass (on_list srv lg PAGE_SIZE idx) idx all_items of
        Stop res \<Rightarrow> Some (res, lg @ [GetList PAGE_SIZE idx])
      | Next all_items' \<Rightarrow> fetch_loop srv (idx + 1) all_items' (lg @ [GetList PAGE_SIZE idx]))"

definition list_investigations ::
  "server \<Rightarrow> call list \<Rightarrow> ((py_error + investigation list) \<times> call list) option" where
  "list_investigations srv lg = fetch_loop srv 0 [] lg"

text \<open>
  A test server holding \<open>items\<close> and serving them in pages of \<open>s\<close> records: page \<open>i\<close> is
  the \<open>i\<close>-th slice of length \<open>s\<close>, and the metadata report the index asked for and the
  number of pages, \<open>\<lceil>length items / s\<rceil>\<close>.
\<close>

definition page_count :: "nat \<Rightarrow> investigation list \<Rightarrow> nat" where
  "page_count s items = (length items + s - 1) div s"

definition paged_server :: "nat \<Rightarrow> investigation list \<Rightarrow> server" where
  "paged_server s items =
     srv_ok\<lparr>on_list :=
       (\<lambda>lg sz i.
          Reply 200 [] []
            (Doc \<lparr>data = Val (take s (drop (i * s) items)),
                  metadata = Val \<lparr>total_pages = Val (int (page_count s items)),
                                  index = Val (int i)\<rparr>\<rparr>))\<rparr>"

section \<open>The view projector: ordering by creation time\<close>

text \<open>
  A \<^verbatim>\<open>datetime\<close> as far as ordering needs it. An aware value is an instant, counted in
  microseconds from 1970-01-01T00:00:00 UTC; a naive value is a wall-clock reading,
  counted likewise. Python orders aware values by instant and naive values by reading,
  and raises \<^verbatim>\<open>TypeError\<close> when asked to compare one of each.
\<close>

datatype datetime = Aware int | Naive int

fun is_aware :: "datetime \<Rightarrow> bool" where
  "is_aware (Aware _) = True"
| "is_aware (Naive _) = False"

fun dt_value :: "datetime \<Rightarrow> int" where
  "dt_value (Aware n) = n"
| "dt_value (Naive n) = n"

text \<open>\<^verbatim>\<open>dt.endswith("Z")\<close> and \<^verbatim>\<open>dt.replace("Z", "+00:00")\<close> (every \<^verbatim>\<open>Z\<close> is replaced).\<close>

definition endswith_Z :: "string \<Rightarrow> bool" where
  "endswith_Z dt = (dt \<noteq> [] \<and> last dt = CHR ''Z'')"

definition replace_Z :: "string \<Rightarrow> string" where
  "replace_Z dt = concat (map (\<lambda>c. if c = CHR ''Z'' then ''+00:00'' else [c]) dt)"

text \<open>
  \<^verbatim>\<open>
  def key_fn(r):
      dt = r.get("created_time") or ""
      try:
          if dt.endswith("Z"):
              d = datetime.fromisoformat(dt.replace("Z", "+00:00"))
          else:
              d = datetime.fromisoformat(dt)
      except Exception:
          d = datetime(1970, 1, 1, tzinfo=timezone.utc)
      return d
  \<close>
  The library function \<^verbatim>\<open>datetime.fromisoformat\<close> is the parameter \<open>fromisoformat\<close>;
  \<open>None\<close> is its \<^verbatim>\<open>ValueError\<close>. \<open>parsed\<close> is the \<^verbatim>\<open>try\<close> part alone.
\<close>

definition parsed :: "(string \<Rightarrow> datetime option) \<Rightarrow> investigation \<Rightarrow> datetime option" where
  "parsed fromisoformat r =
     (let dt = or_empty (created_time r) in
      if endswith_Z dt then fromisoformat (replace_Z dt) else fromisoformat dt)"

definition key_fn :: "(string \<Rightarrow> datetime option) \<Rightarrow> investigation \<Rightarrow> datetime" where
  "key_fn fromisoformat r =
     (case parsed fromisoformat r of Some d \<Rightarrow> d | None \<Rightarrow> Aware 0)"

text \<open>
  \<^verbatim>\<open>sorted(rows, key=key, reverse=reverse)\<close> on \<^verbatim>\<open>datetime\<close> keys. The sort is stable, also
  with \<^verbatim>\<open>reverse=True\<close>: CPython reverses the list, sorts it, and reverses the result, so
  that records with equal keys keep their original order. Sorting a list that holds an
  aware and a naive key has to compare the two and raises.
\<close>

definition py_sorted ::
  "('a \<Rightarrow> datetime) \<Rightarrow> bool \<Rightarrow> 'a list \<Rightarrow> py_error + 'a list" where
  "py_sorted key reverse xs =
     (if list_ex (\<lambda>a. list_ex (\<lambda>b. is_aware (key a) \<noteq> is_aware (key b)) xs) xs
      then Inl (TypeError (''can'' @ [CHR 0x27] @ ''t compare offset-naive and offset-aware datetimes''))
      else Inr (if reverse then rev (sort_key (\<lambda>x. dt_value (key x)) (rev xs))
                else sort_key (\<lambda>x. dt_value (key x)) xs))"

text \<open>
  \<^verbatim>\<open>
  def _sorted_rows_current_view(self):
      ...
      rows_sorted = sorted(self.rows, key=key_fn, reverse=not self.sort_oldest_first)
      return self._apply_assignee_filter(rows_sorted)
  \<close>
  (\<^verbatim>\<open>rebuild_list\<close> computes the same list and displays it.)
\<close>

definition sorted_rows_current_view ::
  "(string \<Rightarrow> datetime option) \<Rightarrow> investigation list \<Rightarrow> bool \<Rightarrow> string
     \<Rightarrow> py_error + investigation list" where
  "sorted_rows_current_view fromisoformat rows sort_oldest_first choice =
     (case py_sorted (key_fn fromisoformat) (\<not> sort_oldest_first) rows of
        Inl e \<Rightarrow> Inl e
      | Inr rows_sorted \<Rightarrow> Inr (apply_assignee_filter choice rows_sorted))"

text \<open>
  A parser for the sample data: the values \<^verbatim>\<open>datetime.fromisoformat\<close> gives on these five
  strings (the last has no offset and parses to a naive value), and \<open>None\<close> on the one
  unparsable string used below (and on anything else).
\<close>

definition sample_iso :: "string \<Rightarrow> datetime option" where
  "sample_iso s =
     (if s = ''2024-03-01T10:00:00+00:00'' then Some (Aware 1709287200000000)
      else if s = ''2024-03-02T10:00:00+00:00'' then Some (Aware 1709373600000000)
      else if s = ''2024-03-03T10:00:00+00:00'' then Some (Aware 1709460000000000)
      else if s = ''1969-12-31T00:00:00+00:00'' then Some (Aware (- 86400000000))
      else if s = ''2024-03-01T10:00:00'' then Some (Naive 1709287200000000)
      else None)"

text \<open>A second record created at the same instant as Alpha, one from 1969, and one
  whose timestamp does not parse.\<close>

definition inv_twin :: investigation where
  "inv_twin = \<lparr>inv_id = Val ''t4'', rrn = Val ''rrn:t'', title = Val ''Twin'',
               created_time = Val ''2024-03-01T10:00:00Z'', assignee = Null\<rparr>"

definition inv_old :: investigation where
  "inv_old = \<lparr>inv_id = Val ''o5'', rrn = Val ''rrn:o'', title = Val ''Old'',
              created_time = Val ''1969-12-31T00:00:00Z'', assignee = Null\<rparr>"

definition inv_bad :: investigation where
  "inv_bad = \<lparr>inv_id = Val ''x6'', rrn = Val ''rrn:x'', title = Val ''Bad'',
              created_time = Val ''not a date'', assignee = Null\<rparr>"

text \<open>A record whose timestamp carries no UTC marker, and one whose assignee email is a
  single space.\<close>

definition inv_naive :: investigation where
  "inv_naive = \<lparr>inv_id = Val ''n7'', rrn = Val ''rrn:n'', title = Val ''Naive'',
                created_time = Val ''2024-03-01T10:00:00'', assignee = Null\<rparr>"

definition inv_blank :: investigation where
  "inv_blank = \<lparr>inv_id = Val ''s8'', rrn = Val ''rrn:s'', title = Val ''Space'',
                created_time = Val ''2024-03-02T10:00:00Z'', assignee = Val (Val '' '')\<rparr>"

section \<open>Properties\<close>

subsection \<open>The assignee filter\<close>

text \<open>
  What \<^verbatim>\<open>strip\<close> computes, said without it: the text between the leading and the trailing
  whitespace.
\<close>

lemma strip_decomp: "\<exists>l t. s = l @ strip s @ t \<and> blank l \<and> blank t"
proof -
  let ?l = "takeWhile isspace s"
  let ?a = "dropWhile isspace s"
  let ?t = "rev (takeWhile isspace (rev ?a))"
  have "rev (rev ?a) = rev (takeWhile isspace (rev ?a) @ dropWhile isspace (rev ?a))"
    by (simp only: takeWhile_dropWhile_id)
  then have "?a = rev (dropWhile isspace (rev ?a)) @ ?t"
    by (simp only: rev_append rev_rev_ident)
  then have a: "?a = strip s @ ?t" by (simp only: strip_def)
  have "s = ?l @ ?a" by simp
  with a have "s = ?l @ strip s @ ?t" by simp
  moreover have "blank ?l" by (auto simp: blank_def list_all_iff dest: set_takeWhileD)
  moreover have "blank ?t" by (auto simp: blank_def list_all_iff dest: set_takeWhileD)
  ultimately show ?thesis by blast
qed

lemma last_dropWhile_ne: "dropWhile P xs \<noteq> [] \<Longrightarrow> last (dropWhile P xs) = last xs"
proof -
  assume ne: "dropWhile P xs \<noteq> []"
  have "last xs = last (takeWhile P xs @ dropWhile P xs)" by simp
  also have "\<dots> = last (dropWhile P xs)" using ne by (simp only: last_append if_False)
  finally show ?thesis by simp
qed

lemma strip_core: "strip s = [] \<or> (\<not> isspace (hd (strip s)) \<and> \<not> isspace (last (strip s)))"
proof (cases "strip s = []")
  case True
  then show ?thesis by simp
next
  case False
  let ?a = "dropWhile isspace s"
  let ?b = "dropWhile isspace (rev ?a)"
  have s: "strip s = rev ?b" by (simp add: strip_def)
  with False have b: "?b \<noteq> []" by simp
  have a: "?a \<noteq> []"
  proof
    assume "?a = []"
    then have "?b = []" by (simp only: rev.simps dropWhile.simps)
    with b show False by (rule notE)
  qed
  have 1: "\<not> isspace (hd ?b)" using b by (rule hd_dropWhile)
  have "last ?b = last (rev ?a)" using b by (rule last_dropWhile_ne)
  also have "\<dots> = hd ?a" using a by (simp add: last_rev)
  finally have 2: "\<not> isspace (last ?b)" using hd_dropWhile [OF a] by simp
  from 1 2 b s show ?thesis by (simp add: hd_rev last_rev)
qed

lemma blank_dropWhile: "blank l \<Longrightarrow> dropWhile isspace (l @ xs) = dropWhile isspace xs"
  by (simp add: blank_def list_all_iff)

lemma strip_of_padded:
  assumes l: "blank l" and t: "blank t"
    and c: "c = [] \<or> (\<not> isspace (hd c) \<and> \<not> isspace (last c))"
  shows "strip (l @ c @ t) = c"
proof (cases "c = []")
  case True
  have "\<forall>x\<in>set (l @ t). isspace x" using l t by (auto simp: blank_def list_all_iff)
  then have d: "dropWhile isspace (l @ t) = []" by (simp only: dropWhile_eq_Nil_conv)
  have "strip (l @ t) = []" unfolding strip_def by (simp only: d rev.simps dropWhile.simps)
  with True show ?thesis by simp
next
  case False
  with c have h: "\<not> isspace (hd c)" and e: "\<not> isspace (last c)" by simp_all
  have "dropWhile isspace (c @ t) = c @ t" using False h by (cases c) simp_all
  then have 1: "dropWhile isspace (l @ c @ t) = c @ t" using blank_dropWhile [OF l] by simp
  have bt: "blank (rev t)" using t by (simp add: blank_def list_all_iff)
  have "dropWhile isspace (rev c) = rev c" using False e by (cases "rev c") (auto simp: last_rev hd_rev)
  then have "dropWhile isspace (rev t @ rev c) = rev c" using blank_dropWhile [OF bt] by simp
  with 1 show ?thesis by (simp add: strip_def)
qed

lemma trims_to_iff: "trims_to s c \<longleftrightarrow> strip s = c"
proof
  assume "trims_to s c"
  then obtain l t where "s = l @ c @ t" "blank l" "blank t"
    "c = [] \<or> (\<not> isspace (hd c) \<and> \<not> isspace (last c))"
    unfolding trims_to_def by blast
  then show "strip s = c" using strip_of_padded [of l t c] by simp
next
  assume "strip s = c"
  with strip_decomp [of s] strip_core [of s] show "trims_to s c" by (auto simp: trims_to_def)
qed

lemma strip_blank_iff: "strip s = [] \<longleftrightarrow> blank s"
proof
  assume "strip s = []"
  with strip_decomp [of s] show "blank s" by (auto simp: blank_def)
next
  assume "blank s"
  then have "strip ([] @ [] @ s) = []" by (intro strip_of_padded) (simp_all add: blank_def)
  then show "strip s = []" by simp
qed

lemma assignee_from_rec_raw: "assignee_from_rec r = strip (raw_email r)"
  by (cases "assignee r") (auto simp: assignee_from_rec_def raw_email_def strip_def split: jfield.splits)

lemma sample_assignees:
  "assignee_from_rec inv_a = ''ann@example.com''"
  "assignee_from_rec inv_b = []"
  "assignee_from_rec inv_c = ''ann@example.com''"
  "assignee_from_rec inv_blank = []"
  by (simp_all add: assignee_from_rec_def strip_def isspace_def inv_a_def inv_b_def inv_c_def
      inv_blank_def)

text \<open>
  C7, as amended. For every list of records: the assignee filter with choice \<^verbatim>\<open>All\<close>
  returns the list unchanged; with \<^verbatim>\<open>Unassigned\<close> it returns exactly the records whose
  assignee email is missing, null, empty or whitespace only; with any other choice it
  returns exactly the records whose assignee email, with the whitespace around it
  removed, equals the choice; and the kept records stay in their relative order. As
  stated, with the email compared as it is, the claim fails: the filter trims the email
  first.
\<close>

theorem C7_assignee_filter:
  "apply_assignee_filter ''All'' rows = rows
   \<and> apply_assignee_filter ''Unassigned'' rows = filter (\<lambda>r. blank (raw_email r)) rows
   \<and> (choice \<noteq> ''All'' \<and> choice \<noteq> ''Unassigned'' \<longrightarrow>
        apply_assignee_filter choice rows = filter (\<lambda>r. trims_to (raw_email r) choice) rows)
   \<and> subseq (apply_assignee_filter choice rows) rows"
proof -
  have a: "subseq (apply_assignee_filter choice rows) rows"
    by (simp add: apply_assignee_filter_def)
  show ?thesis using a
    by (simp add: apply_assignee_filter_def assignee_from_rec_raw strip_blank_iff trims_to_iff)
qed

theorem C7_assignee_filter_witness:
  "''ann@example.com'' \<noteq> ''All'' \<and> ''ann@example.com'' \<noteq> ''Unassigned''
   \<and> apply_assignee_filter ''ann@example.com'' [inv_a, inv_b, inv_c] = [inv_a, inv_c]
   \<and> apply_assignee_filter ''Unassigned'' [inv_a, inv_b, inv_c] = [inv_b]
   \<and> apply_assignee_filter ''All'' [inv_a, inv_b, inv_c] = [inv_a, inv_b, inv_c]"
  using C7_assignee_filter [of "[inv_a, inv_b, inv_c]" "''ann@example.com''"]
  by (simp add: apply_assignee_filter_def sample_assignees)

text \<open>
  A padded email is matched by the choice without the padding and not by the email as
  written, and an email of one space counts as unassigned.
\<close>

theorem C7_trimmed_email_counterexample:
  "assignee inv_c = Val (Val '' ann@example.com '')
   \<and> '' ann@example.com '' \<noteq> ''ann@example.com''
   \<and> apply_assignee_filter ''ann@example.com'' [inv_c] = [inv_c]
   \<and> apply_assignee_filter '' ann@example.com '' [inv_c] = []
   \<and> assignee inv_blank = Val (Val '' '')
   \<and> apply_assignee_filter ''Unassigned'' [inv_blank] = [inv_blank]"
  by (simp add: apply_assignee_filter_def sample_assignees) (simp add: inv_c_def inv_blank_def)

subsection \<open>The identifier resolver and comment creation\<close>

text \<open>
  C8. For every identifier that already has the canonical form (it starts with the
  marker \<^verbatim>\<open>rrn:\<close>), the resolver returns it unchanged and sends no request: the log of
  calls is the same after as before, whatever the server.
\<close>

theorem C8_get_rrn_canonical_noop:
  "startswith id_or_rrn ''rrn:'' \<Longrightarrow> get_rrn srv lg id_or_rrn = (Inr id_or_rrn, lg)"
  by (auto simp: get_rrn_def startswith_def)

theorem C8_get_rrn_canonical_noop_witness:
  "startswith ''rrn:investigation:42'' ''rrn:''
   \<and> get_rrn srv_ok [] ''rrn:investigation:42'' = (Inr ''rrn:investigation:42'', [])"
proof -
  have h: "startswith ''rrn:investigation:42'' ''rrn:''" by (simp add: startswith_def)
  from C8_get_rrn_canonical_noop [OF h, of srv_ok "[]"] h show ?thesis by simp
qed

text \<open>
  C10. For every target and an empty or missing comment text, comment creation returns
  the successful outcome (\<^verbatim>\<open>ok\<close> true, status 204, empty text and body) and sends no
  request, so the \<^verbatim>\<open>not info["ok"]\<close> test of the bulk run cannot fire for it.
\<close>

theorem C10_empty_comment_is_noop:
  "txt = None \<or> txt = Some [] \<Longrightarrow>
     create_comment_v1 u srv lg target_rrn txt
       = (Inr \<lparr>ok = True, status = 204, url = u, info_text = [], body = None\<rparr>, lg)
     \<and> (\<forall>info lg'. create_comment_v1 u srv lg target_rrn txt = (Inr info, lg') \<longrightarrow> ok info)"
  by (auto simp: create_comment_v1_def)

theorem C10_empty_comment_is_noop_witness:
  "(Some [] = (None :: string option) \<or> Some [] = Some ([] :: string))
   \<and> create_comment_v1 ''https://us.api.insight.rapid7.com/idr/v1/comments'' srv_ok [] ''rrn:a'' (Some [])
       = (Inr \<lparr>ok = True, status = 204, url = ''https://us.api.insight.rapid7.com/idr/v1/comments'',
               info_text = [], body = None\<rparr>, [])"
proof -
  have h: "Some [] = (None :: string option) \<or> Some [] = Some ([] :: string)" by simp
  from C10_empty_comment_is_noop [OF h, of "''https://us.api.insight.rapid7.com/idr/v1/comments''" srv_ok "[]" "''rrn:a''"] h
  show ?thesis by simp
qed

subsection \<open>What each step of the executor sends\<close>

lemma status_stepD:
  "status_step srv cs k lg = (r, lg') \<Longrightarrow> lg' = lg @ (if cs \<noteq> [] then [PutStatus k cs] else [])"
  by (auto simp: status_step_def set_status_def Let_def split: if_splits)

lemma dispo_stepD:
  "dispo_step srv cd k lg = (r, lg') \<Longrightarrow> lg' = lg @ (if truthy cd then [PutDisposition k (the cd)] else [])"
  by (auto simp: dispo_step_def set_disposition_def Let_def split: if_splits)

lemma assignee_stepD:
  "assignee_step srv ce k lg = (r, lg') \<Longrightarrow>
     \<exists>ext. lg' = lg @ ext \<and> (truthy ce \<longrightarrow> PatchAssignee k (the ce) \<in> set ext) \<and> (\<not> truthy ce \<longrightarrow> ext = [])
        \<and> set ext \<subseteq> {PatchAssignee k (the ce), PutAssignee k (the ce)}"
  by (auto simp: assignee_step_def assign_user_def Let_def split: if_splits reply.splits)

lemma get_rrnD:
  "get_rrn srv lg i = (r, lg') \<Longrightarrow> lg' = lg \<or> lg' = lg @ [GetInvestigation i]"
  by (auto simp: get_rrn_def Let_def split: if_splits sum.splits decoded.splits get_body.splits jvalue.splits)

lemma create_commentD:
  "truthy c \<Longrightarrow> create_comment_v1 u srv lg t c = (r, lg') \<Longrightarrow> lg' = lg @ [PostComment t (the c)]"
  by (auto simp: create_comment_v1_def truthy_def Let_def split: reply.splits)

lemma and_thenD:
  "and_then m f = (r, lg') \<Longrightarrow>
     (\<exists>e. m = (Inl e, lg') \<and> r = Inl e) \<or> (\<exists>x l. m = (Inr x, l) \<and> f x l = (r, lg'))"
  by (auto simp: and_then_def split: prod.splits sum.splits)

lemma and_then_InrD:
  "and_then m f = (Inr y, lg') \<Longrightarrow> \<exists>x l. m = (Inr x, l) \<and> f x l = (Inr y, lg')"
  by (auto simp: and_then_def split: prod.splits sum.splits)

lemma comment_stepD:
  assumes "comment_step u srv cm idx succ inv_rrn the_id lg = (r, lg')"
  shows "\<exists>ext. lg' = lg @ ext \<and> (\<forall>c\<in>set ext. \<not> is_assignee_call c)
           \<and> (\<not> truthy cm \<longrightarrow> ext = [])
           \<and> (\<not> isl r \<and> truthy cm \<longrightarrow>
                list_ex (\<lambda>c. case c of
                            PostComment t b \<Rightarrow> b = the cm \<and> (inv_rrn \<noteq> [] \<longrightarrow> t = inv_rrn)
                          | _ \<Rightarrow> False) ext)"
proof (cases "truthy cm")
  case False
  with assms show ?thesis by (simp add: comment_step_def)
next
  case True
  let ?m = "if inv_rrn \<noteq> [] then (Inr inv_rrn, lg) else get_rrn srv lg the_id"
  let ?f = "\<lambda>target_rrn lg4.
        and_then (create_comment_v1 u srv lg4 target_rrn cm) (\<lambda>info lg5.
          if \<not> ok info then
            (Inl (RuntimeError (''Comment HTTP '' @ str_nat (status info) @ '' '' @ info_text info)),
             lg5)
          else (Inr (if idx = 1 \<and> succ = 0 then cm else None), lg5))"
  from assms True have a: "and_then ?m ?f = (r, lg')" by (simp add: comment_step_def)
  from and_thenD [OF a] show ?thesis
  proof
    assume "\<exists>e. ?m = (Inl e, lg') \<and> r = Inl e"
    then obtain e where m: "?m = (Inl e, lg')" and r: "r = Inl e" by blast
    from m have "lg' = lg \<or> lg' = lg @ [GetInvestigation the_id]"
      by (auto split: if_splits dest: get_rrnD)
    with r True show ?thesis by auto
  next
    assume "\<exists>x l. ?m = (Inr x, l) \<and> ?f x l = (r, lg')"
    then obtain x l where m: "?m = (Inr x, l)" and f: "?f x l = (r, lg')" by blast
    from m have l: "l = lg \<or> l = lg @ [GetInvestigation the_id]"
      by (auto split: if_splits dest: get_rrnD)
    from m have x: "inv_rrn \<noteq> [] \<longrightarrow> x = inv_rrn" by (auto split: if_splits)
    have "lg' = l @ [PostComment x (the cm)]"
      using and_thenD [OF f]
    proof
      assume "\<exists>e. create_comment_v1 u srv l x cm = (Inl e, lg') \<and> r = Inl e"
      then obtain e where "create_comment_v1 u srv l x cm = (Inl e, lg')" by blast
      from create_commentD [OF True this] show ?thesis .
    next
      assume "\<exists>info l5. create_comment_v1 u srv l x cm = (Inr info, l5) \<and>
                (if \<not> ok info then
                   (Inl (RuntimeError (''Comment HTTP '' @ str_nat (status info) @ '' '' @ info_text info)),
                    l5)
                 else (Inr (if idx = 1 \<and> succ = 0 then cm else None), l5)) = (r, lg')"
      then obtain info l5 where c: "create_comment_v1 u srv l x cm = (Inr info, l5)"
        and g: "(if \<not> ok info then
                   (Inl (RuntimeError (''Comment HTTP '' @ str_nat (status info) @ '' '' @ info_text info)),
                    l5)
                 else (Inr (if idx = 1 \<and> succ = 0 then cm else None), l5)) = (r, lg')"
        by blast
      from g have "lg' = l5" by (simp split: if_splits)
      with create_commentD [OF True c] show ?thesis by simp
    qed
    with l x True show ?thesis by auto
  qed
qed

lemma try_bodyD:
  assumes "try_body u srv cs cd ce cm idx succ rec lg = (r, lg')"
  shows "\<exists>ext. lg' = lg @ ext
           \<and> (\<not> truthy ce \<longrightarrow> (\<forall>c\<in>set ext. \<not> is_assignee_call c))
           \<and> (\<not> truthy cm \<longrightarrow> (\<forall>c\<in>set ext. \<forall>t b. c \<noteq> PostComment t b \<and> c \<noteq> GetInvestigation t))
           \<and> prefix lg lg'"
proof -
  let ?inv_rrn = "or_empty (rrn rec)"
  let ?the_id = "or_empty (inv_id rec)"
  let ?k = "if ?the_id \<noteq> [] then ?the_id else ?inv_rrn"
  let ?c = "\<lambda>lg3. comment_step u srv cm idx succ ?inv_rrn ?the_id lg3"
  let ?a = "\<lambda>lg2. and_then (assignee_step srv ce ?k lg2) (\<lambda>_. ?c)"
  let ?d = "\<lambda>lg1. and_then (dispo_step srv cd ?k lg1) (\<lambda>_. ?a)"
  from assms have tb: "and_then (status_step srv cs ?k lg) (\<lambda>_. ?d) = (r, lg')"
    unfolding try_body_def Let_def .
  have C: "\<And>l. ?c l = (r, lg') \<Longrightarrow> \<exists>ext. lg' = l @ ext \<and> (\<forall>c\<in>set ext. \<not> is_assignee_call c)
           \<and> (\<not> truthy cm \<longrightarrow> ext = [])
           \<and> (\<not> isl r \<and> truthy cm \<longrightarrow>
                list_ex (\<lambda>c. case c of
                            PostComment t b \<Rightarrow> b = the cm \<and> (?inv_rrn \<noteq> [] \<longrightarrow> t = ?inv_rrn)
                          | _ \<Rightarrow> False) ext)"
    by (rule comment_stepD)
  have A: "\<exists>ext. lg' = l @ ext
           \<and> (\<not> truthy ce \<longrightarrow> (\<forall>c\<in>set ext. \<not> is_assignee_call c))
           \<and> (\<not> truthy cm \<longrightarrow> (\<forall>c\<in>set ext. \<forall>t b. c \<noteq> PostComment t b \<and> c \<noteq> GetInvestigation t))
           \<and> (\<not> isl r \<longrightarrow> (truthy ce \<longrightarrow> PatchAssignee ?k (the ce) \<in> set ext) \<and> (truthy cm \<longrightarrow>
                list_ex (\<lambda>c. case c of
                            PostComment t b \<Rightarrow> b = the cm \<and> (?inv_rrn \<noteq> [] \<longrightarrow> t = ?inv_rrn)
                          | _ \<Rightarrow> False) ext))" if h: "?a l = (r, lg')" for l
    using and_thenD [OF h]
  proof
    assume "\<exists>e. assignee_step srv ce ?k l = (Inl e, lg') \<and> r = Inl e"
    then obtain e where m: "assignee_step srv ce ?k l = (Inl e, lg')" and r: "r = Inl e" by blast
    from assignee_stepD [OF m] obtain ext where e: "lg' = l @ ext" "\<not> truthy ce \<longrightarrow> ext = []"
      "set ext \<subseteq> {PatchAssignee ?k (the ce), PutAssignee ?k (the ce)}"
      by blast
    have "truthy ce" using m by (auto simp: assignee_step_def split: if_splits)
    with e r show ?thesis by auto
  next
    assume "\<exists>x l3. assignee_step srv ce ?k l = (Inr x, l3) \<and> ?c l3 = (r, lg')"
    then obtain x l3 where m: "assignee_step srv ce ?k l = (Inr x, l3)" and c: "?c l3 = (r, lg')"
      by blast
    from assignee_stepD [OF m] obtain e1 where e1: "l3 = l @ e1"
      "truthy ce \<longrightarrow> PatchAssignee ?k (the ce) \<in> set e1" "\<not> truthy ce \<longrightarrow> e1 = []"
      "set e1 \<subseteq> {PatchAssignee ?k (the ce), PutAssignee ?k (the ce)}"
      by blast
    from C [OF c] obtain e2 where e2: "lg' = l3 @ e2" "\<forall>c\<in>set e2. \<not> is_assignee_call c"
      "\<not> truthy cm \<longrightarrow> e2 = []"
      "\<not> isl r \<and> truthy cm \<longrightarrow>
                list_ex (\<lambda>c. case c of
                            PostComment t b \<Rightarrow> b = the cm \<and> (?inv_rrn \<noteq> [] \<longrightarrow> t = ?inv_rrn)
                          | _ \<Rightarrow> False) e2"
      by blast
    have "lg' = l @ (e1 @ e2)" using e1 e2 by simp
    moreover have "\<not> truthy ce \<longrightarrow> (\<forall>c\<in>set (e1 @ e2). \<not> is_assignee_call c)"
      using e1 e2 by auto
    moreover have "\<not> truthy cm \<longrightarrow> (\<forall>c\<in>set (e1 @ e2). \<forall>t b. c \<noteq> PostComment t b \<and> c \<noteq> GetInvestigation t)"
      using e1 e2 by auto
    moreover have "\<not> isl r \<longrightarrow> (truthy ce \<longrightarrow> PatchAssignee ?k (the ce) \<in> set (e1 @ e2)) \<and> (truthy cm \<longrightarrow>
                list_ex (\<lambda>c. case c of
                            PostComment t b \<Rightarrow> b = the cm \<and> (?inv_rrn \<noteq> [] \<longrightarrow> t = ?inv_rrn)
                          | _ \<Rightarrow> False) (e1 @ e2))"
      using e1 e2 by (auto simp: list_ex_iff)
    ultimately show ?thesis by blast
  qed
  let ?noas = "\<lambda>ext. \<not> truthy ce \<longrightarrow> (\<forall>c\<in>set ext. \<not> is_assignee_call c)"
  let ?nocm = "\<lambda>ext. \<not> truthy cm \<longrightarrow>
                 (\<forall>c\<in>set ext. \<forall>t b. c \<noteq> PostComment t b \<and> c \<noteq> GetInvestigation t)"
  let ?as = "\<lambda>ext. truthy ce \<longrightarrow> PatchAssignee ?k (the ce) \<in> set ext"
  let ?cm = "\<lambda>ext. truthy cm \<longrightarrow>
                list_ex (\<lambda>c. case c of
                            PostComment t b \<Rightarrow> b = the cm \<and> (?inv_rrn \<noteq> [] \<longrightarrow> t = ?inv_rrn)
                          | _ \<Rightarrow> False) ext"
  let ?di = "\<lambda>ext. truthy cd \<longrightarrow> PutDisposition ?k (the cd) \<in> set ext"
  let ?st = "\<lambda>ext. cs \<noteq> [] \<longrightarrow> PutStatus ?k cs \<in> set ext"
  have D: "\<exists>ext. lg' = l @ ext \<and> ?noas ext \<and> ?nocm ext
             \<and> (\<not> isl r \<longrightarrow> ?di ext \<and> ?as ext \<and> ?cm ext)" if h: "?d l = (r, lg')" for l
    using and_thenD [OF h]
  proof
    assume "\<exists>e. dispo_step srv cd ?k l = (Inl e, lg') \<and> r = Inl e"
    then obtain e where m: "dispo_step srv cd ?k l = (Inl e, lg')" and r: "r = Inl e" by blast
    from dispo_stepD [OF m] r show ?thesis by auto
  next
    assume "\<exists>x l2. dispo_step srv cd ?k l = (Inr x, l2) \<and> ?a l2 = (r, lg')"
    then obtain x l2 where m: "dispo_step srv cd ?k l = (Inr x, l2)" and c: "?a l2 = (r, lg')"
      by blast
    define e1 where "e1 = (if truthy cd then [PutDisposition ?k (the cd)] else [])"
    from dispo_stepD [OF m] have l2: "l2 = l @ e1" by (simp add: e1_def)
    from A [OF c] obtain e2 where e2: "lg' = l2 @ e2" "?noas e2" "?nocm e2"
      "\<not> isl r \<longrightarrow> ?as e2 \<and> ?cm e2"
      by blast
    have "lg' = l @ (e1 @ e2)" using l2 e2 by simp
    moreover have "?noas (e1 @ e2)" using e2 by (auto simp: e1_def)
    moreover have "?nocm (e1 @ e2)" using e2 by (auto simp: e1_def)
    moreover have "\<not> isl r \<longrightarrow> ?di (e1 @ e2) \<and> ?as (e1 @ e2) \<and> ?cm (e1 @ e2)"
      using e2 by (auto simp: e1_def list_ex_iff)
    ultimately show ?thesis by blast
  qed
  have S: "\<exists>ext. lg' = lg @ ext \<and> ?noas ext \<and> ?nocm ext
             \<and> (\<not> isl r \<longrightarrow> ?st ext \<and> ?di ext \<and> ?as ext \<and> ?cm ext)"
    using and_thenD [OF tb]
  proof
    assume "\<exists>e. status_step srv cs ?k lg = (Inl e, lg') \<and> r = Inl e"
    then obtain e where m: "status_step srv cs ?k lg = (Inl e, lg')" and r: "r = Inl e" by blast
    from status_stepD [OF m] r show ?thesis by auto
  next
    assume "\<exists>x l1. status_step srv cs ?k lg = (Inr x, l1) \<and> ?d l1 = (r, lg')"
    then obtain x l1 where m: "status_step srv cs ?k lg = (Inr x, l1)" and c: "?d l1 = (r, lg')"
      by blast
    define e1 where "e1 = (if cs \<noteq> [] then [PutStatus ?k cs] else [])"
    from status_stepD [OF m] have l1: "l1 = lg @ e1" by (simp add: e1_def)
    from D [OF c] obtain e2 where e2: "lg' = l1 @ e2" "?noas e2" "?nocm e2"
      "\<not> isl r \<longrightarrow> ?di e2 \<and> ?as e2 \<and> ?cm e2"
      by blast
    have "lg' = lg @ (e1 @ e2)" using l1 e2 by simp
    moreover have "?noas (e1 @ e2)" using e2 by (auto simp: e1_def)
    moreover have "?nocm (e1 @ e2)" using e2 by (auto simp: e1_def)
    moreover have "\<not> isl r \<longrightarrow> ?st (e1 @ e2) \<and> ?di (e1 @ e2) \<and> ?as (e1 @ e2) \<and> ?cm (e1 @ e2)"
      using e2 by (auto simp: e1_def list_ex_iff)
    ultimately show ?thesis by blast
  qed
  then show ?thesis by auto
qed

subsection \<open>The worker loop\<close>

lemma length_outcomes: "length (outcomes u srv cs cd ce cm idx rows succ lg) = length rows"
  by (induction rows arbitrary: idx succ lg) (auto split: prod.splits)

lemma worker_successes:
  "successes (worker u srv cs cd ce cm idx rows st)
     = successes st + length (filter (\<lambda>r. \<not> isl r) (outcomes u srv cs cd ce cm idx rows (successes st) (calls st)))"
proof (induction rows arbitrary: idx st)
  case Nil
  show ?case by simp
next
  case (Cons rec rest)
  obtain r lg' where tb: "try_body u srv cs cd ce cm idx (successes st) rec (calls st) = (r, lg')"
    by (cases "try_body u srv cs cd ce cm idx (successes st) rec (calls st)")
  show ?case
  proof (cases r)
    case (Inl e)
    with tb Cons.IH show ?thesis by simp
  next
    case (Inr h)
    with tb Cons.IH show ?thesis by simp
  qed
qed

lemma worker_fails:
  "fails (worker u srv cs cd ce cm idx rows st)
     = fails st @ map fail_line (filter (\<lambda>p. isl (snd p))
         (zip rows (outcomes u srv cs cd ce cm idx rows (successes st) (calls st))))"
proof (induction rows arbitrary: idx st)
  case Nil
  show ?case by simp
next
  case (Cons rec rest)
  obtain r lg' where tb: "try_body u srv cs cd ce cm idx (successes st) rec (calls st) = (r, lg')"
    by (cases "try_body u srv cs cd ce cm idx (successes st) rec (calls st)")
  show ?case
  proof (cases r)
    case (Inl e)
    with tb Cons.IH show ?thesis by (simp add: fail_line_def)
  next
    case (Inr h)
    with tb Cons.IH show ?thesis by simp
  qed
qed

lemma worker_calls:
  "\<exists>ext. calls (worker u srv cs cd ce cm idx rows st) = calls st @ ext
      \<and> (\<not> truthy ce \<longrightarrow> (\<forall>c\<in>set ext. \<not> is_assignee_call c))"
proof (induction rows arbitrary: idx st)
  case Nil
  show ?case by simp
next
  case (Cons rec rest)
  obtain r lg' where tb: "try_body u srv cs cd ce cm idx (successes st) rec (calls st) = (r, lg')"
    by (cases "try_body u srv cs cd ce cm idx (successes st) rec (calls st)")
  from try_bodyD [OF tb] obtain e1 where e1: "lg' = calls st @ e1"
    "\<not> truthy ce \<longrightarrow> (\<forall>c\<in>set e1. \<not> is_assignee_call c)"
    by blast
  define st' where "st' = (case r of
          Inr h \<Rightarrow>
            st\<lparr>successes := successes st + 1, calls := lg',
               history_adds := history_adds st @ (case h of Some c \<Rightarrow> [c] | None \<Rightarrow> [])\<rparr>
        | Inl e \<Rightarrow>
            st\<lparr>fails := fails st @ [title_text (title rec) @ '': '' @ str_of_error e],
               calls := lg'\<rparr>)"
  have st': "calls st' = lg'" by (auto simp: st'_def split: sum.splits)
  have w: "worker u srv cs cd ce cm idx (rec # rest) st = worker u srv cs cd ce cm (idx + 1) rest st'"
    using tb by (simp add: st'_def split: sum.splits)
  from Cons.IH [of "idx + 1" st'] obtain e2 where e2:
    "calls (worker u srv cs cd ce cm (idx + 1) rest st') = calls st' @ e2"
    "\<not> truthy ce \<longrightarrow> (\<forall>c\<in>set e2. \<not> is_assignee_call c)"
    by blast
  have 1: "calls (worker u srv cs cd ce cm idx (rec # rest) st) = calls st @ (e1 @ e2)"
    using w e1 e2 st' by simp
  have 2: "\<not> truthy ce \<longrightarrow> (\<forall>c\<in>set (e1 @ e2). \<not> is_assignee_call c)"
    using e1 e2 by auto
  from 1 2 show ?case by blast
qed

lemma filter_single:
  "i < length xs \<Longrightarrow> \<forall>j<length xs. P (xs ! j) \<longleftrightarrow> j = i \<Longrightarrow> filter P xs = [xs ! i]"
proof (induction xs arbitrary: i)
  case Nil
  then show ?case by simp
next
  case (Cons x xs)
  show ?case
  proof (cases i)
    case 0
    have "\<forall>y\<in>set xs. \<not> P y"
    proof
      fix y assume "y \<in> set xs"
      then obtain j where "j < length xs" "xs ! j = y" by (auto simp: in_set_conv_nth)
      with Cons.prems(2) [rule_format, of "Suc j"] 0 show "\<not> P y" by auto
    qed
    moreover have "P x" using Cons.prems(2) [rule_format, of 0] 0 by simp
    ultimately show ?thesis using 0 by (simp add: filter_empty_conv)
  next
    case (Suc i')
    have nx: "\<not> P x" using Cons.prems(2) [rule_format, of 0] Suc by simp
    have "\<forall>j<length xs. P (xs ! j) \<longleftrightarrow> j = i'"
    proof (intro allI impI)
      fix j assume "j < length xs"
      with Cons.prems(2) [rule_format, of "Suc j"] Suc show "P (xs ! j) \<longleftrightarrow> j = i'" by simp
    qed
    with Cons.IH [of i'] Cons.prems(1) Suc nx show ?thesis by simp
  qed
qed

subsection \<open>Failure isolation in a bulk run\<close>

text \<open>
  A record whose body does not raise has been sent exactly the requests of a record that
  receives all its updates, each of them accepted.
\<close>

lemma status_step_calls:
  "status_step srv cs k pre = (Inr x, l) \<Longrightarrow> \<exists>s. status_calls srv cs k pre = Some s \<and> l = pre @ s"
  by (auto simp: status_step_def set_status_def raise_for_status_def accepted_def status_calls_def
      Let_def split: if_splits reply.splits)

lemma dispo_step_calls:
  "dispo_step srv cd k pre = (Inr x, l) \<Longrightarrow> \<exists>s. dispo_calls srv cd k pre = Some s \<and> l = pre @ s"
  by (auto simp: dispo_step_def set_disposition_def raise_for_status_def accepted_def dispo_calls_def
      Let_def split: if_splits reply.splits)

lemma assignee_step_calls:
  "assignee_step srv ce k pre = (Inr x, l) \<Longrightarrow> \<exists>s. assignee_calls srv ce k pre = Some s \<and> l = pre @ s"
  by (auto simp: assignee_step_def assign_user_def raise_for_status_def accepted_def
      assignee_calls_def Let_def split: if_splits reply.splits)

lemma get_rrn_Inr:
  assumes "get_rrn srv pre ident = (Inr t, l)"
  shows "ident \<noteq> [] \<and>
         (if startswith ident ''rrn:'' then t = ident \<and> l = pre
          else accepted (on_get srv pre ident) \<and> t = canonical_name (on_get srv pre ident)
               \<and> t \<noteq> [] \<and> l = pre @ [GetInvestigation ident])"
proof (cases "ident = [] \<or> startswith ident ''rrn:''")
  case True
  with assms show ?thesis by (auto simp: get_rrn_def split: if_splits)
next
  case False
  obtain r where r: "on_get srv pre ident = r" by simp
  show ?thesis
  proof (cases r)
    case (Raised m)
    with assms False r show ?thesis by (simp add: get_rrn_def raise_for_status_def Let_def)
  next
    case (Reply code t' m j)
    with assms False r show ?thesis
      by (auto simp: get_rrn_def raise_for_status_def accepted_def canonical_name_def Let_def
          split: if_splits decoded.splits get_body.splits jvalue.splits jfield.splits)
  qed
qed

lemma create_comment_Inr:
  assumes "truthy cm" and "create_comment_v1 u srv l t cm = (Inr info, l5)" and "ok info"
  shows "created (on_send srv l (PostComment t (the cm))) \<and> l5 = l @ [PostComment t (the cm)]"
  using assms
  by (auto simp: create_comment_v1_def truthy_def created_def Let_def split: reply.splits)


lemma comment_step_calls:
  assumes "comment_step u srv cm idx succ own ident pre = (Inr h, l)"
  shows "\<exists>s. comment_calls srv cm own ident pre = Some s \<and> l = pre @ s"
proof (cases "truthy cm")
  case False
  with assms show ?thesis by (simp add: comment_step_def comment_calls_def)
next
  case True
  let ?m = "if own \<noteq> [] then (Inr own, pre) else get_rrn srv pre ident"
  let ?g = "\<lambda>info lg5.
          if \<not> ok info then
            (Inl (RuntimeError (''Comment HTTP '' @ str_nat (status info) @ '' '' @ info_text info)),
             lg5)
          else (Inr (if idx = 1 \<and> succ = 0 then cm else None), lg5)"
  let ?f = "\<lambda>target_rrn lg4. and_then (create_comment_v1 u srv lg4 target_rrn cm) ?g"
  from assms True have a: "and_then ?m ?f = (Inr h, l)" by (simp add: comment_step_def)
  from and_then_InrD [OF a] obtain t l4 where m: "?m = (Inr t, l4)" and f: "?f t l4 = (Inr h, l)"
    by blast
  from and_then_InrD [OF f] have "\<exists>info l5. create_comment_v1 u srv l4 t cm = (Inr info, l5)
      \<and> ok info \<and> l5 = l"
    by (auto split: if_splits)
  then obtain info where c: "create_comment_v1 u srv l4 t cm = (Inr info, l)" and ok: "ok info"
    by blast
  from create_comment_Inr [OF True c ok]
  have cr: "created (on_send srv l4 (PostComment t (the cm)))" and l: "l = l4 @ [PostComment t (the cm)]"
    by simp_all
  show ?thesis
  proof (cases "own \<noteq> []")
    case True
    with m have "t = own" "l4 = pre" by simp_all
    with True \<open>truthy cm\<close> cr l show ?thesis by (simp add: comment_calls_def)
  next
    case False
    with m have g: "get_rrn srv pre ident = (Inr t, l4)" by simp
    from get_rrn_Inr [OF g] False \<open>truthy cm\<close> cr l show ?thesis
      by (auto simp: comment_calls_def Let_def split: if_splits)
  qed
qed

lemma try_body_applied:
  assumes "try_body u srv cs cd ce cm idx succ rec pre = (Inr h, lg')"
  shows "\<exists>seg. applied_calls srv cs cd ce cm rec pre = Some seg \<and> lg' = pre @ seg"
proof -
  let ?own = "or_empty (rrn rec)"
  let ?ident = "or_empty (inv_id rec)"
  let ?k = "if ?ident \<noteq> [] then ?ident else ?own"
  let ?c = "\<lambda>lg3. comment_step u srv cm idx succ ?own ?ident lg3"
  let ?a = "\<lambda>lg2. and_then (assignee_step srv ce ?k lg2) (\<lambda>_. ?c)"
  let ?d = "\<lambda>lg1. and_then (dispo_step srv cd ?k lg1) (\<lambda>_. ?a)"
  from assms have tb: "and_then (status_step srv cs ?k pre) (\<lambda>_. ?d) = (Inr h, lg')"
    unfolding try_body_def Let_def .
  from and_then_InrD [OF tb] obtain x1 l1 where
    1: "status_step srv cs ?k pre = (Inr x1, l1)" and d: "?d l1 = (Inr h, lg')" by blast
  from and_then_InrD [OF d] obtain x2 l2 where
    2: "dispo_step srv cd ?k l1 = (Inr x2, l2)" and a: "?a l2 = (Inr h, lg')" by blast
  from and_then_InrD [OF a] obtain x3 l3 where
    3: "assignee_step srv ce ?k l2 = (Inr x3, l3)" and c: "?c l3 = (Inr h, lg')" by blast
  from status_step_calls [OF 1] obtain s1 where
    s1: "status_calls srv cs ?k pre = Some s1" "l1 = pre @ s1" by blast
  from dispo_step_calls [OF 2] obtain s2 where
    s2: "dispo_calls srv cd ?k l1 = Some s2" "l2 = l1 @ s2" by blast
  from assignee_step_calls [OF 3] obtain s3 where
    s3: "assignee_calls srv ce ?k l2 = Some s3" "l3 = l2 @ s3" by blast
  from comment_step_calls [OF c] obtain s4 where
    s4: "comment_calls srv cm ?own ?ident l3 = Some s4" "lg' = l3 @ s4" by blast
  have "applied_calls srv cs cd ce cm rec pre = Some (s1 @ s2 @ s3 @ s4)"
    unfolding applied_calls_def Let_def using s1 s2 s3 s4 by simp
  moreover have "lg' = pre @ (s1 @ s2 @ s3 @ s4)" using s1 s2 s3 s4 by simp
  ultimately show ?thesis by blast
qed

lemma worker_segments:
  "\<exists>segs. length segs = length rows
      \<and> calls (worker u srv cs cd ce cm idx rows st) = calls st @ concat segs
      \<and> (\<forall>j<length rows. \<not> isl (outcomes u srv cs cd ce cm idx rows (successes st) (calls st) ! j)
            \<longrightarrow> applied_calls srv cs cd ce cm (rows ! j) (calls st @ concat (take j segs))
                  = Some (segs ! j))"
proof (induction rows arbitrary: idx st)
  case Nil
  show ?case by simp
next
  case (Cons rec rest)
  obtain r lg' where tb: "try_body u srv cs cd ce cm idx (successes st) rec (calls st) = (r, lg')"
    by (cases "try_body u srv cs cd ce cm idx (successes st) rec (calls st)")
  from try_bodyD [OF tb] obtain e1 where e1: "lg' = calls st @ e1" by blast
  have ap: "\<not> isl r \<longrightarrow> applied_calls srv cs cd ce cm rec (calls st) = Some e1"
  proof
    assume "\<not> isl r"
    then obtain h where "r = Inr h" by (cases r) auto
    with tb try_body_applied [of u srv cs cd ce cm idx "successes st" rec "calls st" h lg'] e1
    show "applied_calls srv cs cd ce cm rec (calls st) = Some e1" by auto
  qed
  define st' where "st' = (case r of
          Inr h \<Rightarrow>
            st\<lparr>successes := successes st + 1, calls := lg',
               history_adds := history_adds st @ (case h of Some c \<Rightarrow> [c] | None \<Rightarrow> [])\<rparr>
        | Inl e \<Rightarrow>
            st\<lparr>fails := fails st @ [title_text (title rec) @ '': '' @ str_of_error e],
               calls := lg'\<rparr>)"
  have st': "calls st' = lg'" "successes st' = (case r of Inr _ \<Rightarrow> successes st + 1 | Inl _ \<Rightarrow> successes st)"
    by (auto simp: st'_def split: sum.splits)
  have w: "worker u srv cs cd ce cm idx (rec # rest) st = worker u srv cs cd ce cm (idx + 1) rest st'"
    using tb by (simp add: st'_def split: sum.splits)
  have o: "outcomes u srv cs cd ce cm idx (rec # rest) (successes st) (calls st)
             = r # outcomes u srv cs cd ce cm (idx + 1) rest (successes st') (calls st')"
    using tb st' by simp
  from Cons.IH [of "idx + 1" st'] obtain segs where segs:
    "length segs = length rest"
    "calls (worker u srv cs cd ce cm (idx + 1) rest st') = calls st' @ concat segs"
    "\<forall>j<length rest. \<not> isl (outcomes u srv cs cd ce cm (idx + 1) rest (successes st') (calls st') ! j)
            \<longrightarrow> applied_calls srv cs cd ce cm (rest ! j) (calls st' @ concat (take j segs))
                  = Some (segs ! j)"
    by blast
  have 1: "length (e1 # segs) = length (rec # rest)" using segs by simp
  have 2: "calls (worker u srv cs cd ce cm idx (rec # rest) st) = calls st @ concat (e1 # segs)"
    using w e1 segs st' by simp
  have 3: "\<not> isl (outcomes u srv cs cd ce cm idx (rec # rest) (successes st) (calls st) ! j)
            \<longrightarrow> applied_calls srv cs cd ce cm ((rec # rest) ! j)
                  (calls st @ concat (take j (e1 # segs))) = Some ((e1 # segs) ! j)"
    if j: "j < length (rec # rest)" for j
  proof (cases j)
    case 0
    with ap o show ?thesis by simp
  next
    case (Suc j')
    with j segs(3) o e1 st' show ?thesis by simp
  qed
  from 1 2 3 show ?case by blast
qed


text \<open>
  C1. For every bulk run over a selected list of K records, if exactly one record \<open>i\<close>
  fails (its \<^verbatim>\<open>try\<close> body raises \<open>e\<close> at whatever step) and no other record does, then
  the report's success count is K - 1 and its failure list is exactly the one line
  \<^verbatim>\<open>title: error\<close> of record \<open>i\<close>. The requests of the run are the requests of the K
  records one after the other, and each of the other K - 1 records, before and after
  \<open>i\<close>, was sent exactly the requests that apply every requested field update to it, all
  accepted: its status, its disposition, its assignee, and the comment on that record's
  own canonical name (looked up from its identifier when the record has none).
\<close>

theorem C1_single_failure_isolated:
  assumes i: "i < length rows"
    and others: "\<forall>j<length rows. j \<noteq> i \<longrightarrow> \<not> isl (outcomes u srv cs cd ce cm 1 rows 0 lg ! j)"
    and fail: "outcomes u srv cs cd ce cm 1 rows 0 lg ! i = Inl e"
  shows "let final = worker u srv cs cd ce cm 1 rows
                       \<lparr>successes = 0, fails = [], calls = lg, history_adds = []\<rparr>
         in successes final = length rows - 1
          \<and> fails final = [title_text (title (rows ! i)) @ '': '' @ str_of_error e]
          \<and> (\<exists>segs. length segs = length rows
                \<and> calls final = lg @ concat segs
                \<and> (\<forall>j<length rows. j \<noteq> i \<longrightarrow>
                      applied_calls srv cs cd ce cm (rows ! j) (lg @ concat (take j segs))
                        = Some (segs ! j)))"
proof -
  define st0 :: run where "st0 = \<lparr>successes = 0, fails = [], calls = lg, history_adds = []\<rparr>"
  define outs where "outs = outcomes u srv cs cd ce cm 1 rows 0 lg"
  define final where "final = worker u srv cs cd ce cm 1 rows st0"
  have st0: "successes st0 = 0" "fails st0 = []" "calls st0 = lg" by (simp_all add: st0_def)
  have len: "length outs = length rows" by (simp add: outs_def length_outcomes)
  have iff: "\<forall>j<length outs. isl (outs ! j) \<longleftrightarrow> j = i"
    using others fail len by (auto simp: outs_def)
  have one: "filter isl outs = [outs ! i]"
    using filter_single [of i outs isl] i len iff by simp
  have "length (filter isl outs) + length (filter (\<lambda>r. \<not> isl r) outs) = length outs"
    by (rule sum_length_filter_compl)
  with one len have ok: "length (filter (\<lambda>r. \<not> isl r) outs) = length rows - 1" by simp
  have s: "successes final = length rows - 1"
    using worker_successes [of u srv cs cd ce cm 1 rows st0] ok st0
    by (simp add: final_def outs_def)
  have ziff: "\<forall>j<length (zip rows outs). isl (snd (zip rows outs ! j)) \<longleftrightarrow> j = i"
    using iff len by simp
  have "filter (\<lambda>p. isl (snd p)) (zip rows outs) = [zip rows outs ! i]"
    using filter_single [of i "zip rows outs" "\<lambda>p. isl (snd p)"] i len ziff by simp
  then have "filter (\<lambda>p. isl (snd p)) (zip rows outs) = [(rows ! i, Inl e)]"
    using i len fail by (simp add: outs_def)
  then have f: "fails final = [title_text (title (rows ! i)) @ '': '' @ str_of_error e]"
    using worker_fails [of u srv cs cd ce cm 1 rows st0] st0
    by (simp add: final_def outs_def fail_line_def)
  from worker_segments [of rows u srv cs cd ce cm 1 st0] obtain segs where segs:
    "length segs = length rows"
    "calls final = lg @ concat segs"
    "\<forall>j<length rows. \<not> isl (outs ! j)
        \<longrightarrow> applied_calls srv cs cd ce cm (rows ! j) (lg @ concat (take j segs)) = Some (segs ! j)"
    unfolding final_def outs_def st0 by blast
  have c: "\<forall>j<length rows. j \<noteq> i \<longrightarrow>
             applied_calls srv cs cd ce cm (rows ! j) (lg @ concat (take j segs)) = Some (segs ! j)"
    using segs(3) others by (simp add: outs_def)
  from segs(1,2) c have "\<exists>segs. length segs = length rows
                \<and> calls final = lg @ concat segs
                \<and> (\<forall>j<length rows. j \<noteq> i \<longrightarrow>
                      applied_calls srv cs cd ce cm (rows ! j) (lg @ concat (take j segs))
                        = Some (segs ! j))" by blast
  with s f show ?thesis unfolding Let_def final_def st0_def by blast
qed

lemma sample_outcomes:
  "outcomes ''u'' srv_b_fails ''CLOSED'' (Some ''BENIGN'') (Some ''ann@example.com'') (Some ''done'')
      1 [inv_a, inv_b, inv_c] 0 []
     = [Inr (Some ''done''), Inl (HTTPError ''500 Server Error''), Inr None]"
  by code_simp

lemma sample_run:
  "worker ''u'' srv_b_fails ''CLOSED'' (Some ''BENIGN'') (Some ''ann@example.com'') (Some ''done'')
      1 [inv_a, inv_b, inv_c] \<lparr>successes = 0, fails = [], calls = [], history_adds = []\<rparr>
     = \<lparr>successes = 2, fails = [''Beta: 500 Server Error''],
        calls = [PutStatus ''a1'' ''CLOSED'', PutDisposition ''a1'' ''BENIGN'',
                 PatchAssignee ''a1'' ''ann@example.com'', PostComment ''rrn:a'' ''done'',
                 PutStatus ''b2'' ''CLOSED'', PutDisposition ''b2'' ''BENIGN'',
                 PatchAssignee ''b2'' ''ann@example.com'', PutAssignee ''b2'' ''ann@example.com'',
                 PutStatus ''c3'' ''CLOSED'', PutDisposition ''c3'' ''BENIGN'',
                 PatchAssignee ''c3'' ''ann@example.com'', GetInvestigation ''c3'',
                 PostComment ''rrn:c3'' ''done''],
        history_adds = [''done'']\<rparr>"
  by code_simp

lemma sample_applied_first:
  "applied_calls srv_b_fails ''CLOSED'' (Some ''BENIGN'') (Some ''ann@example.com'') (Some ''done'')
      inv_a []
     = Some [PutStatus ''a1'' ''CLOSED'', PutDisposition ''a1'' ''BENIGN'',
             PatchAssignee ''a1'' ''ann@example.com'', PostComment ''rrn:a'' ''done'']"
  by code_simp

lemma sample_applied_last:
  "applied_calls srv_b_fails ''CLOSED'' (Some ''BENIGN'') (Some ''ann@example.com'') (Some ''done'')
      inv_c
      [PutStatus ''a1'' ''CLOSED'', PutDisposition ''a1'' ''BENIGN'',
       PatchAssignee ''a1'' ''ann@example.com'', PostComment ''rrn:a'' ''done'',
       PutStatus ''b2'' ''CLOSED'', PutDisposition ''b2'' ''BENIGN'',
       PatchAssignee ''b2'' ''ann@example.com'', PutAssignee ''b2'' ''ann@example.com'']
     = Some [PutStatus ''c3'' ''CLOSED'', PutDisposition ''c3'' ''BENIGN'',
             PatchAssignee ''c3'' ''ann@example.com'', GetInvestigation ''c3'',
             PostComment ''rrn:c3'' ''done'']"
  by code_simp

theorem C1_single_failure_isolated_witness:
  "(1::nat) < length [inv_a, inv_b, inv_c]
   \<and> outcomes ''u'' srv_b_fails ''CLOSED'' (Some ''BENIGN'') (Some ''ann@example.com'')
        (Some ''done'') 1 [inv_a, inv_b, inv_c] 0 []
        = [Inr (Some ''done''), Inl (HTTPError ''500 Server Error''), Inr None]
   \<and> worker ''u'' srv_b_fails ''CLOSED'' (Some ''BENIGN'') (Some ''ann@example.com'')
        (Some ''done'') 1 [inv_a, inv_b, inv_c]
        \<lparr>successes = 0, fails = [], calls = [], history_adds = []\<rparr>
      = \<lparr>successes = 2, fails = [''Beta: 500 Server Error''],
         calls = [PutStatus ''a1'' ''CLOSED'', PutDisposition ''a1'' ''BENIGN'',
                  PatchAssignee ''a1'' ''ann@example.com'', PostComment ''rrn:a'' ''done'',
                  PutStatus ''b2'' ''CLOSED'', PutDisposition ''b2'' ''BENIGN'',
                  PatchAssignee ''b2'' ''ann@example.com'', PutAssignee ''b2'' ''ann@example.com'',
                  PutStatus ''c3'' ''CLOSED'', PutDisposition ''c3'' ''BENIGN'',
                  PatchAssignee ''c3'' ''ann@example.com'', GetInvestigation ''c3'',
                  PostComment ''rrn:c3'' ''done''],
         history_adds = [''done'']\<rparr>
   \<and> applied_calls srv_b_fails ''CLOSED'' (Some ''BENIGN'') (Some ''ann@example.com'')
        (Some ''done'') inv_a []
      = Some [PutStatus ''a1'' ''CLOSED'', PutDisposition ''a1'' ''BENIGN'',
              PatchAssignee ''a1'' ''ann@example.com'', PostComment ''rrn:a'' ''done'']
   \<and> applied_calls srv_b_fails ''CLOSED'' (Some ''BENIGN'') (Some ''ann@example.com'')
        (Some ''done'') inv_c
        [PutStatus ''a1'' ''CLOSED'', PutDisposition ''a1'' ''BENIGN'',
         PatchAssignee ''a1'' ''ann@example.com'', PostComment ''rrn:a'' ''done'',
         PutStatus ''b2'' ''CLOSED'', PutDisposition ''b2'' ''BENIGN'',
         PatchAssignee ''b2'' ''ann@example.com'', PutAssignee ''b2'' ''ann@example.com'']
      = Some [PutStatus ''c3'' ''CLOSED'', PutDisposition ''c3'' ''BENIGN'',
              PatchAssignee ''c3'' ''ann@example.com'', GetInvestigation ''c3'',
              PostComment ''rrn:c3'' ''done'']"
proof -
  have h1: "(1::nat) < length [inv_a, inv_b, inv_c]" by simp
  have h2: "\<forall>j<length [inv_a, inv_b, inv_c]. j \<noteq> 1 \<longrightarrow>
         \<not> isl (outcomes ''u'' srv_b_fails ''CLOSED'' (Some ''BENIGN'') (Some ''ann@example.com'')
                  (Some ''done'') 1 [inv_a, inv_b, inv_c] 0 [] ! j)"
    unfolding sample_outcomes by (auto simp: nth_Cons' less_Suc_eq numeral_3_eq_3)
  have h3: "outcomes ''u'' srv_b_fails ''CLOSED'' (Some ''BENIGN'') (Some ''ann@example.com'')
        (Some ''done'') 1 [inv_a, inv_b, inv_c] 0 [] ! 1 = Inl (HTTPError ''500 Server Error'')"
    unfolding sample_outcomes by simp
  from C1_single_failure_isolated [OF h1 h2 h3] h1 sample_outcomes sample_run
    sample_applied_first sample_applied_last
  show ?thesis by simp
qed

subsection \<open>The no-change assignee\<close>

lemma collect_assignees_keeps:
  "collect_assignees as acc = Inr dir \<Longrightarrow> \<exists>rest. dir = acc @ rest"
proof (induction as arbitrary: acc)
  case Nil
  then show ?case by simp
next
  case (Cons a as)
  then show ?case
    by (fastforce split: sum.splits if_splits)
qed

lemma get_assignees_head:
  "get_assignees_from_settings cfg = Inr dir \<Longrightarrow> \<exists>rest. dir = (''Unassigned / No Change'', []) # rest"
  unfolding get_assignees_from_settings_def
  by (auto simp del: collect_assignees.simps split: jfield.splits list.splits
      dest!: collect_assignees_keeps)

text \<open>
  C9. For every bulk run in which the chosen assignee is the synthetic no-change entry
  (the first directory entry, labelled \<^verbatim>\<open>Unassigned / No Change\<close>, whose contact address
  is empty), the executor sends no assignee request (neither the PATCH nor the PUT) for
  any record of the run.
\<close>

theorem C9_no_change_sends_no_assignee_call:
  assumes "assignee_choice frm = ''Unassigned / No Change''"
    and "update_selected_async u srv cfg frm rows lg = Inr final"
  shows "\<exists>ext. calls final = lg @ ext \<and> (\<forall>c\<in>set ext. \<not> is_assignee_call c)"
proof (cases "rows = []")
  case True
  with assms(2) show ?thesis by (auto simp: update_selected_async_def)
next
  case False
  with assms(2) obtain dir where dir: "get_assignees_from_settings cfg = Inr dir"
    and fin: "final = worker u srv (status_choice frm) (or_none (dispo_choice frm))
                    (chosen_email_of dir (assignee_choice frm))
                    (or_none (strip (comment_box frm))) 1 rows
                    \<lparr>successes = 0, fails = [], calls = lg, history_adds = []\<rparr>"
    by (auto simp: update_selected_async_def split: sum.splits)
  from get_assignees_head [OF dir] obtain rest where "dir = (''Unassigned / No Change'', []) # rest"
    by blast
  with assms(1) have ce: "chosen_email_of dir (assignee_choice frm) = None" by simp
  have nt: "\<not> truthy None" by (simp add: truthy_def)
  from worker_calls [of u srv "status_choice frm" "or_none (dispo_choice frm)" None
      "or_none (strip (comment_box frm))" 1 rows
      "\<lparr>successes = 0, fails = [], calls = lg, history_adds = []\<rparr>"] nt
  show ?thesis unfolding fin ce by auto
qed

lemma sample_no_change_run:
  "update_selected_async ''u'' srv_ok sample_cfg form_no_change [inv_a, inv_c] []
     = Inr \<lparr>successes = 2, fails = [],
            calls = [PutStatus ''a1'' ''CLOSED'', PutDisposition ''a1'' ''BENIGN'',
                     PostComment ''rrn:a'' ''done'', PutStatus ''c3'' ''CLOSED'',
                     PutDisposition ''c3'' ''BENIGN'', GetInvestigation ''c3'',
                     PostComment ''rrn:c3'' ''done''],
            history_adds = [''done'']\<rparr>"
  by code_simp


theorem C9_no_change_sends_no_assignee_call_witness:
  "assignee_choice form_no_change = ''Unassigned / No Change''
   \<and> update_selected_async ''u'' srv_ok sample_cfg form_no_change [inv_a, inv_c] []
       = Inr \<lparr>successes = 2, fails = [],
              calls = [PutStatus ''a1'' ''CLOSED'', PutDisposition ''a1'' ''BENIGN'',
                       PostComment ''rrn:a'' ''done'', PutStatus ''c3'' ''CLOSED'',
                       PutDisposition ''c3'' ''BENIGN'', GetInvestigation ''c3'',
                       PostComment ''rrn:c3'' ''done''],
              history_adds = [''done'']\<rparr>
   \<and> list_all (\<lambda>c. \<not> is_assignee_call c)
        [PutStatus ''a1'' ''CLOSED'', PutDisposition ''a1'' ''BENIGN'',
         PostComment ''rrn:a'' ''done'', PutStatus ''c3'' ''CLOSED'',
         PutDisposition ''c3'' ''BENIGN'', GetInvestigation ''c3'',
         PostComment ''rrn:c3'' ''done'']"
proof -
  have h1: "assignee_choice form_no_change = ''Unassigned / No Change''"
    by (simp add: form_no_change_def)
  from C9_no_change_sends_no_assignee_call [OF h1 sample_no_change_run] h1 sample_no_change_run
  show ?thesis by (simp add: list_all_iff)
qed

subsection \<open>The comment history of a bulk run\<close>

text \<open>
  Only the first record of a run can hand the comment to the history, and it does so
  exactly when its own body succeeds with a comment; no later record ever does.
\<close>

lemma comment_step_hist:
  assumes "comment_step u srv cm idx succ inv_rrn the_id lg = (Inr h, lg')"
  shows "h = None \<or> (idx = 1 \<and> succ = 0 \<and> h = cm)"
proof (cases "truthy cm")
  case False
  with assms show ?thesis by (simp add: comment_step_def)
next
  case True
  let ?m = "if inv_rrn \<noteq> [] then (Inr inv_rrn, lg) else get_rrn srv lg the_id"
  let ?g = "\<lambda>info lg5.
          if \<not> ok info then
            (Inl (RuntimeError (''Comment HTTP '' @ str_nat (status info) @ '' '' @ info_text info)),
             lg5)
          else (Inr (if idx = 1 \<and> succ = 0 then cm else None), lg5)"
  let ?f = "\<lambda>target_rrn lg4. and_then (create_comment_v1 u srv lg4 target_rrn cm) ?g"
  from assms True have a: "and_then ?m ?f = (Inr h, lg')" by (simp add: comment_step_def)
  from and_then_InrD [OF a] obtain x l where f: "?f x l = (Inr h, lg')" by blast
  from and_then_InrD [OF f] show ?thesis by (auto split: if_splits)
qed

lemma try_body_hist:
  assumes "try_body u srv cs cd ce cm idx succ rec lg = (Inr h, lg')"
  shows "h = None \<or> (idx = 1 \<and> succ = 0 \<and> h = cm)"
proof -
  let ?inv_rrn = "or_empty (rrn rec)"
  let ?the_id = "or_empty (inv_id rec)"
  let ?k = "if ?the_id \<noteq> [] then ?the_id else ?inv_rrn"
  let ?c = "\<lambda>lg3. comment_step u srv cm idx succ ?inv_rrn ?the_id lg3"
  let ?a = "\<lambda>lg2. and_then (assignee_step srv ce ?k lg2) (\<lambda>_. ?c)"
  let ?d = "\<lambda>lg1. and_then (dispo_step srv cd ?k lg1) (\<lambda>_. ?a)"
  from assms have tb: "and_then (status_step srv cs ?k lg) (\<lambda>_. ?d) = (Inr h, lg')"
    unfolding try_body_def Let_def .
  from and_then_InrD [OF tb] obtain l1 where "?d l1 = (Inr h, lg')" by blast
  from and_then_InrD [OF this] obtain l2 where "?a l2 = (Inr h, lg')" by blast
  from and_then_InrD [OF this] obtain l3 where "?c l3 = (Inr h, lg')" by blast
  then show ?thesis by (rule comment_step_hist)
qed

lemma worker_history_later:
  "1 < idx \<Longrightarrow> history_adds (worker u srv cs cd ce cm idx rows st) = history_adds st"
proof (induction rows arbitrary: idx st)
  case Nil
  show ?case by simp
next
  case (Cons rec rest)
  obtain r lg' where tb: "try_body u srv cs cd ce cm idx (successes st) rec (calls st) = (r, lg')"
    by (cases "try_body u srv cs cd ce cm idx (successes st) rec (calls st)")
  show ?case
  proof (cases r)
    case (Inl e)
    with tb Cons.IH [of "idx + 1"] Cons.prems show ?thesis by simp
  next
    case (Inr h)
    with tb try_body_hist [of u srv cs cd ce cm idx "successes st" rec "calls st" h lg'] Cons.prems
    have "h = None" by auto
    with Inr tb Cons.IH [of "idx + 1"] Cons.prems show ?thesis by simp
  qed
qed

lemma worker_history_first:
  "history_adds (worker u srv cs cd ce cm 1 (rec # rest)
                   \<lparr>successes = 0, fails = [], calls = lg, history_adds = []\<rparr>)
     = (case fst (try_body u srv cs cd ce cm 1 0 rec lg) of
          Inr (Some c) \<Rightarrow> [c]
        | _ \<Rightarrow> [])"
proof -
  obtain r lg' where tb: "try_body u srv cs cd ce cm 1 0 rec lg = (r, lg')"
    by (cases "try_body u srv cs cd ce cm 1 0 rec lg")
  show ?thesis
  proof (cases r)
    case (Inl e)
    with tb show ?thesis by (simp add: worker_history_later)
  next
    case (Inr h)
    with tb show ?thesis by (simp add: worker_history_later split: option.splits)
  qed
qed

text \<open>
  C3 says that a run with a comment adds the comment to the history exactly once, on the
  first record whose comment succeeds, and so does the code's own remark
  (\<^verbatim>\<open>Add to history on first successful comment (only once per bulk update)\<close>). The worker
  asks for the entry only under \<^verbatim>\<open>idx == 1 and results["successes"] == 0\<close>, that is on the
  first record of the run: never more than once, but not at all when that record fails.
  Here the comment on the first record (Beta) is refused and the comment on the second
  (Alpha) is created: the run reports one success and hands nothing to the history.
\<close>

theorem C3_no_history_entry_when_first_record_fails:
  "update_selected_async ''u'' srv_comment_b_fails sample_cfg form_comment [inv_b, inv_a] []
     = Inr \<lparr>successes = 1, fails = [''Beta: Comment HTTP 500 no''],
            calls = [PutStatus ''b2'' ''OPEN'', PostComment ''rrn:b'' ''done'',
                     PutStatus ''a1'' ''OPEN'', PostComment ''rrn:a'' ''done''],
            history_adds = []\<rparr>"
  by code_simp

subsection \<open>The bound on the comment history\<close>

lemma strip_Nil: "strip [] = []"
  by (simp add: strip_def)

lemma add_nonblank:
  "strip t \<noteq> [] \<Longrightarrow>
     comment_history (add_to_comment_history w now t st)
       = comment_history st @ [\<lparr>timestamp = now, entry_text = strip t\<rparr>]"
  by (auto simp: add_to_comment_history_def save_comment_history_def strip_Nil)

lemma add_nonblank_stored:
  "strip t \<noteq> [] \<Longrightarrow>
     stored_history (add_to_comment_history True now t st)
       = last_n 50 (comment_history (add_to_comment_history True now t st))"
  by (auto simp: add_to_comment_history_def save_comment_history_def strip_Nil)

lemma add_all_length:
  "\<forall>p\<in>set xs. strip (snd p) \<noteq> [] \<Longrightarrow>
     length (comment_history (add_all w xs st)) = length (comment_history st) + length xs"
proof (induction xs arbitrary: st)
  case Nil
  show ?case by simp
next
  case (Cons p xs)
  obtain now t where p: "p = (now, t)" by (cases p)
  with Cons.prems have "strip t \<noteq> []" by simp
  with Cons p show ?case by (simp add: add_nonblank)
qed

lemma add_all_stored:
  "\<forall>p\<in>set xs. strip (snd p) \<noteq> [] \<Longrightarrow> xs \<noteq> [] \<Longrightarrow>
     stored_history (add_all True xs st) = last_n 50 (comment_history (add_all True xs st))"
proof (induction xs arbitrary: st)
  case Nil
  then show ?case by simp
next
  case (Cons p xs)
  obtain now t where p: "p = (now, t)" by (cases p)
  with Cons.prems have t: "strip t \<noteq> []" by simp
  show ?case
  proof (cases "xs = []")
    case True
    with p t show ?thesis by (simp add: add_nonblank_stored)
  next
    case False
    with Cons p show ?thesis by simp
  qed
qed

lemma length_last_n: "length (last_n n xs) = min n (length xs)"
  by (simp add: last_n_def)

lemma strip_note: "strip ''note'' = ''note''"
  by (simp add: strip_def isspace_def)

text \<open>
  C2 says that the in-session history never exceeds 50 entries. The load path cuts the
  in-memory list to its last 50 entries and the save path writes only the last 50, but
  \<^verbatim>\<open>_add_to_comment_history\<close> appends to \<^verbatim>\<open>self.comment_history\<close> and never cuts it: after 51
  appends in one session the in-memory list has 51 entries while the stored copy
  has 50.
\<close>

theorem C2_in_session_history_exceeds_50:
  "length (comment_history (add_all True (replicate 51 (''2026-01-01 09:00:00'', ''note''))
             \<lparr>comment_history = [], stored_history = []\<rparr>)) = 51
   \<and> length (stored_history (add_all True (replicate 51 (''2026-01-01 09:00:00'', ''note''))
             \<lparr>comment_history = [], stored_history = []\<rparr>)) = 50"
proof -
  let ?xs = "replicate 51 (''2026-01-01 09:00:00'', ''note'')"
  let ?st = "\<lparr>comment_history = [], stored_history = []\<rparr>"
  have nb: "\<forall>p\<in>set ?xs. strip (snd p) \<noteq> []" by (simp add: strip_note)
  have ne: "?xs \<noteq> []" by simp
  have a: "length (comment_history (add_all True ?xs ?st)) = 51"
    using add_all_length [OF nb, of True ?st] by simp
  have "length (stored_history (add_all True ?xs ?st)) = min 50 (length (comment_history (add_all True ?xs ?st)))"
    using add_all_stored [OF nb ne, of ?st] by (simp only: length_last_n)
  with a show ?thesis by simp
qed

subsection \<open>The paginated fetcher\<close>

text \<open>The three ways a pass ends the loop on a successful reply with a document.\<close>

lemma page_pass_stops:
  assumes "r = Reply 200 t m (Doc p)"
  shows "data p = Val [] \<Longrightarrow> page_pass r idx acc = Stop (Inr acc)"
    and "data p = Val (x # xs) \<Longrightarrow> metadata p = Val \<lparr>total_pages = Val 0, index = Val ci\<rparr>
           \<Longrightarrow> page_pass r idx acc = Stop (Inr (acc @ x # xs))"
    and "data p = Val (x # xs) \<Longrightarrow> metadata p = Val \<lparr>total_pages = Val n, index = Val ci\<rparr>
           \<Longrightarrow> n - 1 \<le> ci \<Longrightarrow> page_pass r idx acc = Stop (Inr (acc @ x # xs))"
  using assms by (simp_all add: page_pass_def raise_for_status_def)

lemma page_count_gt: "0 < s \<Longrightarrow> i < page_count s items \<longleftrightarrow> i * s < length items"
proof -
  assume s: "0 < s"
  have "i < page_count s items \<longleftrightarrow> Suc i \<le> (length items + s - 1) div s"
    by (simp add: page_count_def Suc_le_eq)
  also have "\<dots> \<longleftrightarrow> Suc i * s \<le> length items + s - 1"
    using s by (simp add: less_eq_div_iff_mult_less_eq)
  also have "\<dots> \<longleftrightarrow> i * s < length items"
    using s by auto
  finally show ?thesis .
qed

lemma page_count_covers: "0 < s \<Longrightarrow> length items \<le> page_count s items * s"
  using page_count_gt [of s "page_count s items" items] by (simp add: not_less [symmetric])

lemma page_pass_paged:
  "page_pass (on_list (paged_server s items) lg sz i) i acc =
     (let pg = take s (drop (i * s) items) in
      if pg = [] then Stop (Inr acc)
      else if page_count s items \<le> Suc i then Stop (Inr (acc @ pg))
      else Next (acc @ pg))"
  by (auto simp: page_pass_def paged_server_def raise_for_status_def Let_def)

lemma fetch_loop_paged:
  assumes s: "0 < s"
  shows "i * s < length items \<Longrightarrow>
     fetch_loop (paged_server s items) i (take (i * s) items) lg
       = Some (Inr items, lg @ map (GetList PAGE_SIZE) [i..<page_count s items])"
proof (induction "page_count s items - i" arbitrary: i lg)
  case 0
  with page_count_gt [OF s, of i items] show ?case by simp
next
  case (Suc d)
  let ?N = "page_count s items"
  let ?pg = "take s (drop (i * s) items)"
  have iN: "i < ?N" using Suc.hyps(2) by simp
  have pg: "?pg \<noteq> []" using Suc.prems s by simp
  have acc: "take (i * s) items @ ?pg = take (Suc i * s) items"
    by (simp add: take_add [symmetric] add.commute)
  show ?case
  proof (cases "?N \<le> Suc i")
    case True
    with iN have N: "?N = Suc i" by simp
    have "length items \<le> Suc i * s" using page_count_covers [OF s, of items] N by simp
    then have all: "take (Suc i * s) items = items" by simp
    have "[i..<?N] = [i]" using N by simp
    with True pg acc all show ?thesis
      by (subst fetch_loop.simps) (simp add: page_pass_paged Let_def)
  next
    case False
    then have lt: "Suc i < ?N" by simp
    then have more: "Suc i * s < length items" using page_count_gt [OF s, of "Suc i" items] by simp
    have d: "d = ?N - Suc i" using Suc.hyps(2) by simp
    have IH: "fetch_loop (paged_server s items) (Suc i) (take (Suc i * s) items) (lg @ [GetList PAGE_SIZE i])
       = Some (Inr items, (lg @ [GetList PAGE_SIZE i]) @ map (GetList PAGE_SIZE) [Suc i..<?N])"
      using Suc.hyps(1) [OF d more] .
    have "[i..<?N] = i # [Suc i..<?N]" using iN by (simp add: upt_conv_Cons)
    with False pg acc IH show ?thesis
      by (subst fetch_loop.simps) (simp add: page_pass_paged Let_def)
  qed
qed

lemma concat_pages:
  "concat (map (\<lambda>i. take s (drop (i * s) items)) [0..<n]) = take (n * s) items"
proof (induction n)
  case 0
  show ?case by simp
next
  case (Suc n)
  then show ?case by (simp add: take_add [symmetric] add.commute)
qed

text \<open>
  C4. For every test server that holds a list of records and serves it in pages of any
  size \<open>s > 0\<close> (whatever the total count), with metadata reporting the index and the
  number of pages, the fetcher terminates (the result is \<open>Some\<close>) and returns exactly
  the concatenation of the server's pages, which is the server's list itself: every
  record once, in order. It asks for pages 0, 1, ... and stops after the last page, or
  after the first, empty, page when the server holds nothing.
\<close>

theorem C4_fetcher_returns_all_pages:
  "0 < s \<Longrightarrow>
     list_investigations (paged_server s items) lg
       = Some (Inr (concat (map (\<lambda>i. take s (drop (i * s) items)) [0..<page_count s items])),
               lg @ map (GetList PAGE_SIZE) [0..<max 1 (page_count s items)])
     \<and> concat (map (\<lambda>i. take s (drop (i * s) items)) [0..<page_count s items]) = items"
proof -
  assume s: "0 < s"
  have cat: "concat (map (\<lambda>i. take s (drop (i * s) items)) [0..<page_count s items]) = items"
    using page_count_covers [OF s, of items] by (simp add: concat_pages)
  have "list_investigations (paged_server s items) lg
          = Some (Inr items, lg @ map (GetList PAGE_SIZE) [0..<max 1 (page_count s items)])"
  proof (cases "items = []")
    case True
    then have "page_count s items = 0" using s by (simp add: page_count_def)
    with True show ?thesis
      unfolding list_investigations_def
      by (subst fetch_loop.simps) (simp add: page_pass_paged Let_def)
  next
    case False
    then have "0 * s < length items" by simp
    from fetch_loop_paged [OF s this, of lg] have
      "fetch_loop (paged_server s items) 0 [] lg
         = Some (Inr items, lg @ map (GetList PAGE_SIZE) [0..<page_count s items])" by simp
    moreover have "0 < page_count s items" using page_count_gt [OF s, of 0 items] False by simp
    ultimately show ?thesis by (simp add: list_investigations_def max_def)
  qed
  with cat show ?thesis by simp
qed

theorem C4_fetcher_returns_all_pages_witness:
  "(0::nat) < 2
   \<and> list_investigations (paged_server 2 [inv_a, inv_b, inv_c]) []
        = Some (Inr [inv_a, inv_b, inv_c], [GetList PAGE_SIZE 0, GetList PAGE_SIZE 1])"
proof -
  have h: "(0::nat) < 2" by simp
  have n: "page_count 2 [inv_a, inv_b, inv_c] = 2" by (simp add: page_count_def)
  have u: "[0..<2] = [0, Suc 0]" by (simp add: upt_conv_Cons)
  from C4_fetcher_returns_all_pages [OF h, of "[inv_a, inv_b, inv_c]" "[]"] h n u
  show ?thesis by simp
qed

subsection \<open>Ordering by creation time\<close>

lemma filter_rev_commute:
  "apply_assignee_filter choice (rev xs) = rev (apply_assignee_filter choice xs)"
  by (simp add: apply_assignee_filter_def rev_filter)







lemma sample_parsed:
  "parsed sample_iso inv_a = Some (Aware 1709287200000000)"
  "parsed sample_iso inv_b = Some (Aware 1709373600000000)"
  "parsed sample_iso inv_c = Some (Aware 1709460000000000)"
  "parsed sample_iso inv_twin = Some (Aware 1709287200000000)"
  "parsed sample_iso inv_old = Some (Aware (- 86400000000))"
  "parsed sample_iso inv_naive = Some (Naive 1709287200000000)"
  "parsed sample_iso inv_bad = None"
  by (simp_all add: parsed_def sample_iso_def endswith_Z_def replace_Z_def
      inv_a_def inv_b_def inv_c_def inv_twin_def inv_old_def inv_naive_def inv_bad_def)

lemma sample_keys:
  "key_fn sample_iso inv_a = Aware 1709287200000000"
  "key_fn sample_iso inv_b = Aware 1709373600000000"
  "key_fn sample_iso inv_c = Aware 1709460000000000"
  "key_fn sample_iso inv_twin = Aware 1709287200000000"
  "key_fn sample_iso inv_old = Aware (- 86400000000)"
  "key_fn sample_iso inv_naive = Naive 1709287200000000"
  "key_fn sample_iso inv_bad = Aware 0"
  by (simp_all add: key_fn_def sample_parsed)




lemma sorted_filtered:
  "sorted (map f xs) \<Longrightarrow> sorted (map f (apply_assignee_filter choice xs))"
  by (simp add: apply_assignee_filter_def sorted_filter)

lemma view_sorted:
  assumes "sorted_rows_current_view fromisoformat rows oldest_first choice = Inr ys"
  shows "sorted (map (\<lambda>r. dt_value (key_fn fromisoformat r)) (if oldest_first then ys else rev ys))"
proof -
  let ?f = "\<lambda>r. dt_value (key_fn fromisoformat r)"
  from assms obtain zs where zs: "py_sorted (key_fn fromisoformat) (\<not> oldest_first) rows = Inr zs"
    and ys: "ys = apply_assignee_filter choice zs"
    by (auto simp: sorted_rows_current_view_def split: sum.splits)
  show ?thesis
  proof (cases oldest_first)
    case True
    with zs have "zs = sort_key ?f rows" by (simp add: py_sorted_def split: if_splits)
    then have "sorted (map ?f zs)" by simp
    with True ys show ?thesis by (simp add: sorted_filtered)
  next
    case False
    with zs have "zs = rev (sort_key ?f (rev rows))" by (simp add: py_sorted_def split: if_splits)
    then have "sorted (map ?f (rev zs))" by simp
    then have "sorted (map ?f (apply_assignee_filter choice (rev zs)))" by (rule sorted_filtered)
    with False ys show ?thesis by (simp add: filter_rev_commute)
  qed
qed




text \<open>
  Where the sort succeeds, a record with an unparsable timestamp lies on the oldest
  side of every record whose parsed timestamp is later than 1970-01-01 UTC; a record
  from 1969 sorts as older.
\<close>

lemma unparsable_on_oldest_side:
  assumes view: "sorted_rows_current_view fromisoformat rows oldest_first choice = Inr ys"
    and i: "i < length ys" and j: "j < length ys"
    and bad: "parsed fromisoformat (ys ! i) = None"
    and good: "parsed fromisoformat (ys ! j) = Some d"
    and later: "0 < dt_value d"
  shows "key_fn fromisoformat (ys ! i) = Aware 0 \<and> (if oldest_first then i < j else j < i)"
proof -
  let ?f = "\<lambda>r. dt_value (key_fn fromisoformat r)"
  have ki: "key_fn fromisoformat (ys ! i) = Aware 0" using bad by (simp add: key_fn_def)
  have fi: "?f (ys ! i) = 0" using ki by simp
  have fj: "0 < ?f (ys ! j)" using good later by (simp add: key_fn_def)
  have pos: "if oldest_first then i < j else j < i"
  proof (cases oldest_first)
    case True
    with view_sorted [OF view] have s: "sorted (map ?f ys)" by simp
    have "i < j"
    proof (rule ccontr)
      assume "\<not> i < j"
      then have "j \<le> i" by simp
      with s i have "map ?f ys ! j \<le> map ?f ys ! i" by (simp add: sorted_iff_nth_mono)
      with i j fi fj show False by simp
    qed
    with True show ?thesis by simp
  next
    case False
    with view_sorted [OF view] have s: "sorted (rev (map ?f ys))" by (simp add: rev_map)
    have "j < i"
    proof (rule ccontr)
      assume "\<not> j < i"
      then have "i \<le> j" by simp
      with s j have "map ?f ys ! j \<le> map ?f ys ! i"
        using sorted_rev_nth_mono [of "map ?f ys" i j] by simp
      with i j fi fj show False by simp
    qed
    with False show ?thesis by simp
  qed
  from ki pos show ?thesis by simp
qed

lemma pre_1970_sorts_older:
  "sorted_rows_current_view sample_iso [inv_bad, inv_old] True ''All'' = Inr [inv_old, inv_bad]"
  "sorted_rows_current_view sample_iso [inv_bad, inv_old] False ''All'' = Inr [inv_bad, inv_old]"
  by (simp_all add: sorted_rows_current_view_def py_sorted_def sample_keys apply_assignee_filter_def)

text \<open>
  C6 says that a record with an unparsable creation timestamp gets the oldest sort key
  rather than aborting the sort. The \<^verbatim>\<open>except\<close> branch of \<^verbatim>\<open>key_fn\<close> gives it the aware
  value \<^verbatim>\<open>datetime(1970, 1, 1, tzinfo=timezone.utc)\<close>, while a timestamp without the UTC
  marker, which the \<^verbatim>\<open>else\<close> branch of the same function parses, gives a naive value.
  Here one record has such a timestamp and one has an unparsable timestamp: the first
  alone sorts, the two together make \<^verbatim>\<open>sorted\<close> raise in either direction.
\<close>

theorem C6_unparsable_record_aborts_sort:
  "parsed sample_iso inv_naive = Some (Naive 1709287200000000)
   \<and> parsed sample_iso inv_bad = None
   \<and> key_fn sample_iso inv_bad = Aware 0
   \<and> sorted_rows_current_view sample_iso [inv_naive] True ''All'' = Inr [inv_naive]
   \<and> sorted_rows_current_view sample_iso [inv_naive, inv_bad] True ''All''
        = Inl (TypeError (''can'' @ [CHR 0x27] @ ''t compare offset-naive and offset-aware datetimes''))
   \<and> sorted_rows_current_view sample_iso [inv_naive, inv_bad] False ''All''
        = Inl (TypeError (''can'' @ [CHR 0x27] @ ''t compare offset-naive and offset-aware datetimes''))"
  by (simp add: sample_parsed sample_keys sorted_rows_current_view_def py_sorted_def
      apply_assignee_filter_def)

end
